theory Spec2Isabelle
  imports Complex_Main "HOL-Library.Word" "HOL-Library.Log_Nat"
begin

section \<open>JavaScript values used by inkify\<close>

subsection \<open>Strings\<close>

text \<open>
  A JavaScript string is a sequence of 16-bit code units. Literals of the source are
  written as Isabelle strings and converted with \<open>js\<close>.
\<close>

type_synonym jschar = "16 word"
type_synonym jsstring = "jschar list"

definition js :: "string \<Rightarrow> jsstring" where
  "js s = map of_char s"

text \<open>The escape character \<^verbatim>\<open>\x1b\<close> that opens every SGR sequence.\<close>

definition ESC :: jsstring where
  "ESC = [0x1B]"

subsection \<open>Numbers, NaN and undefined\<close>

text \<open>
  The values that reach the Color factories: an integer-valued number, \<open>NaN\<close> (what
  \<open>parseInt\<close> returns when it finds no digit), the two infinities and \<open>undefined\<close> (what
  destructuring reads past the end of an array). Numbers with a fractional part are
  outside this type: their decimal rendering is a property of IEEE doubles.
\<close>

datatype jsval = Num int | NaN | Infinity | NegInfinity | Undefined

text \<open>\<open>throw new Error(msg)\<close>: the exception carries its message.\<close>

datatype error = Error string

text \<open>
  Relational comparison against a number: \<open>undefined\<close> converts to \<open>NaN\<close>, and every
  comparison with \<open>NaN\<close> is false.
\<close>

fun js_lt :: "jsval \<Rightarrow> int \<Rightarrow> bool" where
  "js_lt (Num i) k = (i < k)"
| "js_lt NaN k = False"
| "js_lt Infinity k = False"
| "js_lt NegInfinity k = True"
| "js_lt Undefined k = False"

fun js_gt :: "jsval \<Rightarrow> int \<Rightarrow> bool" where
  "js_gt (Num i) k = (i > k)"
| "js_gt NaN k = False"
| "js_gt Infinity k = True"
| "js_gt NegInfinity k = False"
| "js_gt Undefined k = False"

text \<open>Decimal digits of a natural number, most significant first.\<close>

function dec :: "nat \<Rightarrow> jsstring" where
  "dec n = (if n < 10 then [of_nat (48 + n)] else dec (n div 10) @ [of_nat (48 + n mod 10)])"
  by pat_completeness auto
termination
  by (relation "measure id") auto

declare dec.simps [simp del]

text \<open>
  String conversion inside a template literal. For numbers this is the plain decimal
  numeral, which is what JavaScript prints for integers of magnitude below \<open>10^21\<close>;
  the factories below only print numbers they have checked to lie in \<open>[0, 255]\<close>.
\<close>

fun ToString :: "jsval \<Rightarrow> jsstring" where
  "ToString (Num i) = (if i < 0 then js ''-'' @ dec (nat (- i)) else dec (nat i))"
| "ToString NaN = js ''NaN''"
| "ToString Infinity = js ''Infinity''"
| "ToString NegInfinity = js ''-Infinity''"
| "ToString Undefined = js ''undefined''"

text \<open>Array destructuring \<open>[r, g, b] = arr\<close>: a missing element reads as \<open>undefined\<close>.\<close>

definition element :: "jsval list \<Rightarrow> nat \<Rightarrow> jsval" where
  "element arr i = (if i < length arr then arr ! i else Undefined)"

subsection \<open>Character classes\<close>

text \<open>The class \<^verbatim>\<open>[0-9a-fA-F]\<close>.\<close>

definition is_hex :: "jschar \<Rightarrow> bool" where
  "is_hex c = ((0x30 \<le> c \<and> c \<le> 0x39) \<or> (0x61 \<le> c \<and> c \<le> 0x66) \<or> (0x41 \<le> c \<and> c \<le> 0x46))"

text \<open>Line terminators: LF, CR, LS, PS. The pattern \<^verbatim>\<open>.\<close> matches every other code unit.\<close>

definition is_line_terminator :: "jschar \<Rightarrow> bool" where
  "is_line_terminator c = (c = 0x0A \<or> c = 0x0D \<or> c = 0x2028 \<or> c = 0x2029)"

text \<open>
  White space skipped by \<open>parseInt\<close>: TAB, VT, FF, SP, NBSP, ZWNBSP, the other space
  separators, and the line terminators.
\<close>

definition is_white_space :: "jschar \<Rightarrow> bool" where
  "is_white_space c =
     (c = 0x09 \<or> c = 0x0B \<or> c = 0x0C \<or> c = 0x20 \<or> c = 0xA0 \<or> c = 0xFEFF \<or>
      c = 0x1680 \<or> (0x2000 \<le> c \<and> c \<le> 0x200A) \<or> c = 0x202F \<or> c = 0x205F \<or>
      c = 0x3000 \<or> is_line_terminator c)"

definition hex_value :: "jschar \<Rightarrow> nat" where
  "hex_value c =
     (if c \<le> 0x39 then unat c - 0x30
      else if 0x61 \<le> c then unat c - 0x57
      else unat c - 0x37)"

subsection \<open>\<open>parseInt(s, 16)\<close>\<close>

text \<open>
  The steps of \<open>parseInt\<close> with radix 16: skip leading white space, read an optional
  sign, strip an optional \<^verbatim>\<open>0x\<close> or \<^verbatim>\<open>0X\<close>, take the longest prefix of hexadecimal
  digits; no digit gives \<open>NaN\<close>. (Exact for values below \<open>2^53\<close>; inkify passes two code
  units.)
\<close>

definition parseInt16 :: "jsstring \<Rightarrow> jsval" where
  "parseInt16 s =
     (let S = dropWhile is_white_space s;
          sign = (case S of [] \<Rightarrow> 1 | c # r \<Rightarrow> if c = 0x2D then - 1 else (1 :: int));
          S1 = (case S of [] \<Rightarrow> [] | c # r \<Rightarrow> if c = 0x2B \<or> c = 0x2D then r else S);
          S2 = (case S1 of
                  a # b # r \<Rightarrow> if a = 0x30 \<and> (b = 0x78 \<or> b = 0x58) then r else S1
                | _ \<Rightarrow> S1);
          Z = takeWhile is_hex S2
      in if Z = [] then NaN
         else Num (sign * int (foldl (\<lambda>acc c. 16 * acc + hex_value c) 0 Z)))"

subsection \<open>\<open>String.prototype.match\<close> with \<^verbatim>\<open>/.{2}/g\<close>\<close>

text \<open>
  All non-overlapping matches of two consecutive code units that are not line
  terminators, scanning from the left; a failed attempt moves on by one code unit.
\<close>

fun match_all_pairs :: "jsstring \<Rightarrow> jsstring list" where
  "match_all_pairs (a # b # rest) =
     (if \<not> is_line_terminator a \<and> \<not> is_line_terminator b
      then [a, b] # match_all_pairs rest
      else match_all_pairs (b # rest))"
| "match_all_pairs [a] = []"
| "match_all_pairs [] = []"

text \<open>A global match returns \<open>null\<close> when nothing matches.\<close>

definition match_pairs :: "jsstring \<Rightarrow> jsstring list option" where
  "match_pairs s = (case match_all_pairs s of [] \<Rightarrow> None | m # ms \<Rightarrow> Some (m # ms))"

section \<open>util.ts\<close>

text \<open>
  The four functions of \<^verbatim>\<open>util.ts\<close>. The unnamed source file \<^verbatim>\<open>part_000\<close> holds \<open>rand\<close> once
  more, word for word.
\<close>

subsection \<open>\<open>hexToSVG\<close>\<close>

text \<open>
  \<^verbatim>\<open>hex.slice(1)?.match(/.{2}/g)?.map((c) => parseInt(c, 16)) ?? [255, 255, 255]\<close>:
  the result is an array of whatever length the match has; the cast to a triple is
  erased at run time.
\<close>

definition hexToSVG :: "jsstring \<Rightarrow> jsval list" where
  "hexToSVG hex =
     (case match_pairs (drop 1 hex) of
        None \<Rightarrow> [Num 255, Num 255, Num 255]
      | Some ms \<Rightarrow> map parseInt16 ms)"

subsection \<open>Double-precision arithmetic\<close>

text \<open>
  The numbers of \<^verbatim>\<open>util.ts\<close> are IEEE 754 binary64 values: the finite ones with their real
  value, the two infinities and \<open>NaN\<close>. An argument \<open>Fin x\<close> of a function below stands for
  a double when \<open>x\<close> is the value of one. The two zeros are one value \<open>Fin 0\<close>: they differ
  only as divisors, and every division of the source is by a literal other than zero.
\<close>

datatype number = Fin real | PInf | NInf | NAN

text \<open>
  The binary exponent \<open>\<lfloor>log\<^sub>2 |x|\<rfloor>\<close> of a real other than zero, computed on integers.
\<close>

definition expo :: "real \<Rightarrow> int" where
  "expo x = (if 1 \<le> \<bar>x\<bar> then bitlen \<lfloor>\<bar>x\<bar>\<rfloor> - 1 else - bitlen (\<lceil>1 / \<bar>x\<bar>\<rceil> - 1))"

definition pow2 :: "int \<Rightarrow> real" where
  "pow2 k = (if 0 \<le> k then 2 ^ nat k else 1 / 2 ^ nat (- k))"

text \<open>
  The distance between neighbouring doubles around \<open>x\<close>: 52 binary places below the
  exponent of \<open>x\<close>, and \<open>2^-1074\<close> throughout the subnormal range.
\<close>

definition quantum :: "real \<Rightarrow> real" where
  "quantum x = pow2 (max (expo x) (- 1022) - 52)"

text \<open>The nearest integer, a tie going to the even one.\<close>

definition rne :: "real \<Rightarrow> int" where
  "rne y =
     (let f = \<lfloor>y\<rfloor>
      in if y - of_int f < 1 / 2 then f
         else if 1 / 2 < y - of_int f then f + 1
         else if even f then f else f + 1)"

text \<open>
  Rounding of an exact result to the nearest double, ties to even; a rounded magnitude
  of \<open>2^1024\<close> or more overflows to the infinity of its sign.
\<close>

definition fl :: "real \<Rightarrow> number" where
  "fl x =
     (let y = quantum x * of_int (rne (x / quantum x))
      in if 2 ^ 1024 \<le> \<bar>y\<bar> then (if 0 < x then PInf else NInf) else Fin y)"

text \<open>
  The operators \<open>+\<close>, \<open>-\<close>, \<open>*\<close>, \<open>/\<close> and \<open>%\<close> on numbers. The remainder is that of the
  division truncated towards zero; it is always a double, so it is not rounded.
\<close>

fun fneg :: "number \<Rightarrow> number" where
  "fneg (Fin a) = Fin (- a)"
| "fneg PInf = NInf"
| "fneg NInf = PInf"
| "fneg NAN = NAN"

fun fadd :: "number \<Rightarrow> number \<Rightarrow> number" where
  "fadd NAN b = NAN"
| "fadd a NAN = NAN"
| "fadd (Fin a) (Fin b) = fl (a + b)"
| "fadd (Fin a) PInf = PInf"
| "fadd (Fin a) NInf = NInf"
| "fadd PInf NInf = NAN"
| "fadd PInf b = PInf"
| "fadd NInf PInf = NAN"
| "fadd NInf b = NInf"

definition fsub :: "number \<Rightarrow> number \<Rightarrow> number" where
  "fsub a b = fadd a (fneg b)"

fun sign_of :: "number \<Rightarrow> int" where
  "sign_of (Fin a) = (if a < 0 then - 1 else if a = 0 then 0 else 1)"
| "sign_of PInf = 1"
| "sign_of NInf = - 1"
| "sign_of NAN = 0"

definition signed_inf :: "int \<Rightarrow> number" where
  "signed_inf s = (if s = 0 then NAN else if 0 < s then PInf else NInf)"

fun fmul :: "number \<Rightarrow> number \<Rightarrow> number" where
  "fmul NAN b = NAN"
| "fmul a NAN = NAN"
| "fmul (Fin a) (Fin b) = fl (a * b)"
| "fmul a b = signed_inf (sign_of a * sign_of b)"

fun fdiv :: "number \<Rightarrow> number \<Rightarrow> number" where
  "fdiv NAN b = NAN"
| "fdiv a NAN = NAN"
| "fdiv (Fin a) (Fin b) = (if b = 0 then signed_inf (sign_of (Fin a)) else fl (a / b))"
| "fdiv (Fin a) b = Fin 0"
| "fdiv a (Fin b) = signed_inf (sign_of a * (if b < 0 then - 1 else 1))"
| "fdiv a b = NAN"

fun frem :: "number \<Rightarrow> number \<Rightarrow> number" where
  "frem (Fin a) (Fin b) =
     (if b = 0 then NAN
      else Fin (a - b * of_int (if a / b < 0 then \<lceil>a / b\<rceil> else \<lfloor>a / b\<rfloor>)))"
| "frem (Fin a) PInf = Fin a"
| "frem (Fin a) NInf = Fin a"
| "frem a b = NAN"

text \<open>The comparisons \<open><\<close>, \<open>>\<close> and \<open>===\<close>: each is false when an operand is \<open>NaN\<close>.\<close>

fun flt :: "number \<Rightarrow> number \<Rightarrow> bool" where
  "flt NAN b = False"
| "flt a NAN = False"
| "flt (Fin a) (Fin b) = (a < b)"
| "flt (Fin a) PInf = True"
| "flt (Fin a) NInf = False"
| "flt NInf NInf = False"
| "flt NInf b = True"
| "flt PInf b = False"

definition fgt :: "number \<Rightarrow> number \<Rightarrow> bool" where
  "fgt a b = flt b a"

fun feq :: "number \<Rightarrow> number \<Rightarrow> bool" where
  "feq NAN b = False"
| "feq a NAN = False"
| "feq a b = (a = b)"

text \<open>
  \<open>Math.abs\<close> and \<open>Math.floor\<close> are exact. \<open>Math.round\<close> gives the nearest integer, a tie
  upwards; its results are what the factories receive, so they are of type \<open>jsval\<close>.
\<close>

fun Math_abs :: "number \<Rightarrow> number" where
  "Math_abs (Fin a) = Fin \<bar>a\<bar>"
| "Math_abs PInf = PInf"
| "Math_abs NInf = PInf"
| "Math_abs NAN = NAN"

fun Math_floor :: "number \<Rightarrow> number" where
  "Math_floor (Fin a) = Fin (of_int \<lfloor>a\<rfloor>)"
| "Math_floor a = a"

fun Math_round :: "number \<Rightarrow> jsval" where
  "Math_round (Fin a) = Num \<lfloor>a + 1 / 2\<rfloor>"
| "Math_round PInf = Infinity"
| "Math_round NInf = NegInfinity"
| "Math_round NAN = NaN"

subsection \<open>\<open>hslToRgb\<close> and \<open>hsvToRgb\<close>\<close>

text \<open>
  The source overwrites its parameters \<open>s\<close>, \<open>l\<close> and \<open>v\<close> with their hundredths; the
  parameters are \<open>s0\<close>, \<open>l0\<close> and \<open>v0\<close> here.
\<close>

definition hslToRgb :: "number \<Rightarrow> number \<Rightarrow> number \<Rightarrow> jsval list" where
  "hslToRgb h s0 l0 =
     (let s = fdiv s0 (Fin 100);
          l = fdiv l0 (Fin 100);
          c = fmul (fsub (Fin 1) (Math_abs (fsub (fmul (Fin 2) l) (Fin 1)))) s;
          x = fmul c (fsub (Fin 1) (Math_abs (fsub (frem (fdiv h (Fin 60)) (Fin 2)) (Fin 1))));
          m = fsub l (fdiv c (Fin 2))
      in map (\<lambda>v. Math_round (fmul (fadd v m) (Fin 255)))
           (if flt h (Fin 60) then [c, x, Fin 0]
            else if flt h (Fin 120) then [x, c, Fin 0]
            else if flt h (Fin 180) then [Fin 0, c, x]
            else if flt h (Fin 240) then [Fin 0, x, c]
            else if flt h (Fin 300) then [x, Fin 0, c]
            else [c, Fin 0, x]))"

definition hsvToRgb :: "number \<Rightarrow> number \<Rightarrow> number \<Rightarrow> jsval list" where
  "hsvToRgb h s0 v0 =
     (let s = fdiv s0 (Fin 100);
          v = fdiv v0 (Fin 100);
          c = fmul v s;
          x = fmul c (fsub (Fin 1) (Math_abs (fsub (frem (fdiv h (Fin 60)) (Fin 2)) (Fin 1))));
          m = fsub v c
      in map (\<lambda>v. Math_round (fmul (fadd v m) (Fin 255)))
           (if flt h (Fin 60) then [c, x, Fin 0]
            else if flt h (Fin 120) then [x, c, Fin 0]
            else if flt h (Fin 180) then [Fin 0, c, x]
            else if flt h (Fin 240) then [Fin 0, x, c]
            else if flt h (Fin 300) then [x, Fin 0, c]
            else [c, Fin 0, x]))"

subsection \<open>\<open>rand\<close>\<close>

text \<open>
  \<open>Math.random()\<close> is the only source of non-determinism: its result, a double \<open>u\<close> with
  \<open>0 \<le> u < 1\<close>, is the last argument of the model. The seed only scales the draw. The
  parameters \<open>min\<close> and \<open>max\<close> of the source are \<open>mn\<close> and \<open>mx\<close> here; their defaults are 0,
  and the default seed is 14327.
\<close>

definition rand :: "number \<Rightarrow> number \<Rightarrow> number \<Rightarrow> number \<Rightarrow> number" where
  "rand mn mx seed u =
     (if fgt mn mx \<or> flt mx (Fin 0) \<or> flt mn (Fin 0) \<or> flt seed (Fin 1) then Fin (- 1)
      else if feq mx mn then mn
      else fadd (frem (fadd (Math_floor (fmul u (fsub (fmul mx seed) mn))) mn) (fsub mx mn)) mn)"

section \<open>The Color class holding an ANSI fragment\<close>

text \<open>
  The class \<open>Color\<close> of the unnamed source file \<^verbatim>\<open>part_001\<close>, the one \<^verbatim>\<open>style.ts\<close> renders:
  a Color is its partial escape sequence \<open>ansi\<close>.
\<close>

record Color =
  ansi :: jsstring

text \<open>The constructor stores its argument as it is.\<close>

definition Color_new :: "jsstring \<Rightarrow> Color" where
  "Color_new a = \<lparr>ansi = a\<rparr>"

definition fromRGB :: "jsval \<Rightarrow> jsval \<Rightarrow> jsval \<Rightarrow> error + Color" where
  "fromRGB red green blue =
     (if js_lt red 0 \<or> js_gt red 255 \<or> js_lt green 0 \<or> js_gt green 255 \<or>
         js_lt blue 0 \<or> js_gt blue 255
      then Inl (Error ''RGB values must be between 0 and 255.'')
      else Inr (Color_new (js ''8;2;'' @ ToString red @ js '';'' @ ToString green @
                           js '';'' @ ToString blue)))"

text \<open>The test \<^verbatim>\<open>/^[0-9a-fA-F]{6}$/g.test(hex)\<close> on a fresh regular expression.\<close>

definition test_hex6 :: "jsstring \<Rightarrow> bool" where
  "test_hex6 hex = (length hex = 6 \<and> list_all is_hex hex)"

text \<open>
  \<open>fromHex\<close>: the argument is a string by its type, so \<open>typeof hex !== "string"\<close> is
  false; the conversion is the same expression as in \<open>hexToSVG\<close>, written out again in
  the source.
\<close>

definition fromHex :: "jsstring \<Rightarrow> error + Color" where
  "fromHex hex =
     (if \<not> test_hex6 hex then Inl (Error ''Invalid hex string.'')
      else
        let arr = (case match_pairs (drop 1 hex) of
                     None \<Rightarrow> [Num 255, Num 255, Num 255]
                   | Some ms \<Rightarrow> map parseInt16 ms)
        in fromRGB (element arr 0) (element arr 1) (element arr 2))"

subsection \<open>The 4-bit palette and the 256-colour palette\<close>

definition red :: Color where "red = Color_new (js ''1'')"
definition green :: Color where "green = Color_new (js ''2'')"
definition blue :: Color where "blue = Color_new (js ''4'')"


subsection \<open>\<open>fromHSL\<close> and \<open>random\<close>\<close>

text \<open>\<open>fromHSL\<close> repeats the conversion of \<open>hslToRgb\<close> in its own body.\<close>

definition fromHSL :: "number \<Rightarrow> number \<Rightarrow> number \<Rightarrow> error + Color" where
  "fromHSL hue saturation0 lightness0 =
     (if flt hue (Fin 0) \<or> fgt hue (Fin 360)
        then Inl (Error ''Hue value must be between 0 and 360.'')
      else if flt saturation0 (Fin 0) \<or> fgt saturation0 (Fin 100)
        then Inl (Error ''Saturation value must be between 0 and 100.'')
      else if flt lightness0 (Fin 0) \<or> fgt lightness0 (Fin 100)
        then Inl (Error ''Lightness value must be between 0 and 100.'')
      else
        let saturation = fdiv saturation0 (Fin 100);
            lightness = fdiv lightness0 (Fin 100);
            c = fmul (fsub (Fin 1) (Math_abs (fsub (fmul (Fin 2) lightness) (Fin 1)))) saturation;
            x = fmul c
                  (fsub (Fin 1) (Math_abs (fsub (frem (fdiv hue (Fin 60)) (Fin 2)) (Fin 1))));
            m = fsub lightness (fdiv c (Fin 2));
            rgb = map (\<lambda>v. Math_round (fmul (fadd v m) (Fin 255)))
                    (if flt hue (Fin 60) then [c, x, Fin 0]
                     else if flt hue (Fin 120) then [x, c, Fin 0]
                     else if flt hue (Fin 180) then [Fin 0, c, x]
                     else if flt hue (Fin 240) then [Fin 0, x, c]
                     else if flt hue (Fin 300) then [x, Fin 0, c]
                     else [c, Fin 0, x])
        in fromRGB (element rgb 0) (element rgb 1) (element rgb 2))"



section \<open>color.ts: the Color class holding RGB components\<close>





section \<open>style.ts\<close>

subsection \<open>The store of chain arrays\<close>

text \<open>
  A Style object owns one array, its \<open>_chain\<close>, which its methods mutate in place. Arrays
  live in a store and are named by references; the reference of an array is its index
  in the store. The field \<open>_chain\<close> (here \<open>chain\<close>) is assigned in the constructor only,
  so a Style object is the reference it holds.
\<close>

type_synonym ref = nat
type_synonym store = "jsstring list list"

definition alloc :: "jsstring list \<Rightarrow> store \<Rightarrow> ref \<times> store" where
  "alloc xs st = (length st, st @ [xs])"

definition push :: "ref \<Rightarrow> jsstring \<Rightarrow> store \<Rightarrow> store" where
  "push r x st = st[r := st ! r @ [x]]"

record Style =
  chain :: ref

subsection \<open>Constructor and methods\<close>

definition RESET :: jsstring where
  "RESET = ESC @ js ''[0m''"

text \<open>
  The field initialiser allocates an empty array; the constructor body then assigns a
  new array: a spread copy of the argument's chain, or an empty one.
\<close>

definition Style_new :: "Style option \<Rightarrow> store \<Rightarrow> Style \<times> store" where
  "Style_new style st =
     (let (r0, st0) = alloc [] st;
          (r, st1) = alloc (case style of None \<Rightarrow> [] | Some s \<Rightarrow> st0 ! chain s) st0
      in (\<lparr>chain = r\<rparr>, st1))"

definition light :: "Style \<Rightarrow> store \<Rightarrow> Style \<times> store" where
  "light this st = (this, push (chain this) (ESC @ js ''[2m'') st)"

definition normal :: "Style \<Rightarrow> store \<Rightarrow> Style \<times> store" where
  "normal this st = (this, push (chain this) (ESC @ js ''[22m'') st)"

definition bold :: "Style \<Rightarrow> store \<Rightarrow> Style \<times> store" where
  "bold this st = (this, push (chain this) (ESC @ js ''[1m'') st)"

definition italic :: "Style \<Rightarrow> store \<Rightarrow> Style \<times> store" where
  "italic this st = (this, push (chain this) (ESC @ js ''[3m'') st)"

definition underline :: "Style \<Rightarrow> store \<Rightarrow> Style \<times> store" where
  "underline this st = (this, push (chain this) (ESC @ js ''[4m'') st)"

definition overline :: "Style \<Rightarrow> store \<Rightarrow> Style \<times> store" where
  "overline this st = (this, push (chain this) (ESC @ js ''[53m'') st)"

definition strikethrough :: "Style \<Rightarrow> store \<Rightarrow> Style \<times> store" where
  "strikethrough this st = (this, push (chain this) (ESC @ js ''[9m'') st)"

definition hide :: "Style \<Rightarrow> store \<Rightarrow> Style \<times> store" where
  "hide this st = (this, push (chain this) (ESC @ js ''[8m'') st)"

definition foreground :: "Color \<Rightarrow> Style \<Rightarrow> store \<Rightarrow> Style \<times> store" where
  "foreground col this st = (this, push (chain this) (ESC @ js ''[3'' @ ansi col @ js ''m'') st)"

definition color :: "Color \<Rightarrow> Style \<Rightarrow> store \<Rightarrow> Style \<times> store" where
  "color col this st = foreground col this st"

definition fg :: "Color \<Rightarrow> Style \<Rightarrow> store \<Rightarrow> Style \<times> store" where
  "fg col this st = foreground col this st"

definition background :: "Color \<Rightarrow> Style \<Rightarrow> store \<Rightarrow> Style \<times> store" where
  "background col this st = (this, push (chain this) (ESC @ js ''[4'' @ ansi col @ js ''m'') st)"

definition bg :: "Color \<Rightarrow> Style \<Rightarrow> store \<Rightarrow> Style \<times> store" where
  "bg col this st = background col this st"

definition invert :: "Style \<Rightarrow> store \<Rightarrow> Style \<times> store" where
  "invert this st = (this, push (chain this) (ESC @ js ''[7m'') st)"

text \<open>
  Modelled from the spec: the rendering of a Style. The class in \<^verbatim>\<open>style.ts\<close> has no
  method that reads \<open>_chain\<close>; the specification says that \<open>render()\<close>, implicit in string
  conversion, concatenates all fragments in sequence order with no separator.
\<close>

definition render :: "Style \<Rightarrow> store \<Rightarrow> jsstring" where
  "render s st = concat (st ! chain s)"

section \<open>Vocabulary of the properties\<close>

subsection \<open>The documented hex format\<close>

text \<open>
  The format of the documentation, \<^verbatim>\<open>#RRGGBB\<close>: one sigil character followed by exactly
  six hexadecimal digits.
\<close>

definition sigil_hex6 :: "jsstring \<Rightarrow> bool" where
  "sigil_hex6 s = (length s = 7 \<and> list_all is_hex (drop 1 s))"

definition white_triple :: "jsval list" where
  "white_triple = [Num 255, Num 255, Num 255]"

text \<open>
  The string left after \<open>slice(1)\<close> has two neighbouring code units that \<^verbatim>\<open>.{2}\<close> can
  match.
\<close>

definition has_pair :: "jsstring \<Rightarrow> bool" where
  "has_pair s =
     (\<exists>i \<in> {..<length s - 1}.
        \<not> is_line_terminator (s ! i) \<and> \<not> is_line_terminator (s ! Suc i))"

subsection \<open>The sector algorithm as the specification states it\<close>

text \<open>
  The specification's algorithm, for comparison with \<open>hslToRgb\<close> and \<open>hsvToRgb\<close>: with
  chroma \<open>c\<close> and offset \<open>m\<close>, the intermediate \<open>x = c * (1 - |((h/60) mod 2) - 1|)\<close>, the
  triple of the sector \<open>\<lfloor>h/60\<rfloor>\<close> taken from the table in its fixed order, \<open>m\<close> added to each
  channel, and the result rounded to the nearest integer on the scale \<open>[0, 255]\<close>. Here
  \<open>mod\<close> is the mathematical one. The table takes its zero as an argument, so that it
  serves for reals and for doubles.
\<close>

definition spec_mod :: "real \<Rightarrow> real \<Rightarrow> real" where
  "spec_mod a b = a - b * of_int \<lfloor>a / b\<rfloor>"

definition spec_sectors :: "'a \<Rightarrow> 'a \<Rightarrow> 'a \<Rightarrow> 'a list list" where
  "spec_sectors z c x = [[c, x, z], [x, c, z], [z, c, x], [z, x, c], [x, z, c], [c, z, x]]"

text \<open>First in exact real arithmetic, as the formulas read.\<close>

definition spec_sector_algorithm :: "real \<Rightarrow> real \<Rightarrow> real \<Rightarrow> int list" where
  "spec_sector_algorithm h c m =
     (let x = c * (1 - \<bar>spec_mod (h / 60) 2 - 1\<bar>)
      in map (\<lambda>v. round ((v + m) * 255)) (spec_sectors 0 c x ! nat \<lfloor>h / 60\<rfloor>))"

text \<open>HSL: \<open>c = (1 - |2l' - 1|) * s'\<close> and \<open>m = l' - c/2\<close>.\<close>

definition spec_hslToRgb :: "real \<Rightarrow> real \<Rightarrow> real \<Rightarrow> int list" where
  "spec_hslToRgb h s l =
     (let s' = s / 100;
          l' = l / 100;
          c = (1 - \<bar>2 * l' - 1\<bar>) * s';
          m = l' - c / 2
      in spec_sector_algorithm h c m)"

text \<open>HSV: \<open>c = v' * s'\<close> and \<open>m = v' - c\<close>.\<close>

definition spec_hsvToRgb :: "real \<Rightarrow> real \<Rightarrow> real \<Rightarrow> int list" where
  "spec_hsvToRgb h s v =
     (let s' = s / 100;
          v' = v / 100;
          c = v' * s';
          m = v' - c
      in spec_sector_algorithm h c m)"

text \<open>
  Then the same formulas with every arithmetic operation rounded to a double: the
  mathematical \<open>mod\<close> and the nearest integer are exact on doubles.
\<close>

fun spec_mod_fl :: "number \<Rightarrow> real \<Rightarrow> number" where
  "spec_mod_fl (Fin a) b = Fin (spec_mod a b)"
| "spec_mod_fl a b = NAN"

fun spec_nearest :: "number \<Rightarrow> jsval" where
  "spec_nearest (Fin a) = Num (round a)"
| "spec_nearest PInf = Infinity"
| "spec_nearest NInf = NegInfinity"
| "spec_nearest NAN = NaN"

definition spec_sector_algorithm_fl :: "real \<Rightarrow> number \<Rightarrow> number \<Rightarrow> jsval list" where
  "spec_sector_algorithm_fl h c m =
     (let x = fmul c
                (fsub (Fin 1) (Math_abs (fsub (spec_mod_fl (fdiv (Fin h) (Fin 60)) 2) (Fin 1))))
      in map (\<lambda>v. spec_nearest (fmul (fadd v m) (Fin 255)))
           (spec_sectors (Fin 0) c x ! nat \<lfloor>h / 60\<rfloor>))"

definition spec_hslToRgb_fl :: "real \<Rightarrow> real \<Rightarrow> real \<Rightarrow> jsval list" where
  "spec_hslToRgb_fl h s l =
     (let s' = fdiv (Fin s) (Fin 100);
          l' = fdiv (Fin l) (Fin 100);
          c = fmul (fsub (Fin 1) (Math_abs (fsub (fmul (Fin 2) l') (Fin 1)))) s';
          m = fsub l' (fdiv c (Fin 2))
      in spec_sector_algorithm_fl h c m)"

definition spec_hsvToRgb_fl :: "real \<Rightarrow> real \<Rightarrow> real \<Rightarrow> jsval list" where
  "spec_hsvToRgb_fl h s v =
     (let s' = fdiv (Fin s) (Fin 100);
          v' = fdiv (Fin v) (Fin 100);
          c = fmul v' s';
          m = fsub v' c
      in spec_sector_algorithm_fl h c m)"

subsection \<open>Legal colour fragments\<close>



subsection \<open>Appending to a chain\<close>

text \<open>
  What it means for a method \<open>m\<close> to append the one fragment \<open>f\<close> to the chain of \<open>s\<close> in the
  store \<open>st\<close>: it returns \<open>s\<close> itself, the chain of \<open>s\<close> grows by \<open>f\<close> at its end, no other
  array changes, and the rendering grows by \<open>f\<close>.
\<close>

definition appends_one ::
  "(Style \<Rightarrow> store \<Rightarrow> Style \<times> store) \<Rightarrow> jsstring \<Rightarrow> Style \<Rightarrow> store \<Rightarrow> bool" where
  "appends_one m f s st =
     (case m s st of (s', st') \<Rightarrow>
        s' = s \<and> length st' = length st \<and>
        st' ! chain s = st ! chain s @ [f] \<and>
        (\<forall>r \<in> {..<length st}. r \<noteq> chain s \<longrightarrow> st' ! r = st ! r) \<and>
        render s st' = render s st @ f)"

subsection \<open>Numbers in and out of range\<close>




subsection \<open>Closeness to the exact algorithm\<close>

text \<open>
  A channel that is an integer from 0 to 255 and differs from the integer \<open>k\<close> by at most
  one.
\<close>

fun near_channel :: "jsval \<Rightarrow> int \<Rightarrow> bool" where
  "near_channel (Num i) k = (0 \<le> i \<and> i \<le> 255 \<and> \<bar>i - k\<bar> \<le> 1)"
| "near_channel a k = False"

text \<open>The unit roundoff of binary64: half the distance from 1 to the next double.\<close>

definition eps :: real where
  "eps = 1 / 2 ^ 53"

lemmas eval_defs =
  js_def dec.simps is_hex_def is_line_terminator_def is_white_space_def hex_value_def
  parseInt16_def match_pairs_def hexToSVG_def fromRGB_def test_hex6_def fromHex_def
  element_def Color_new_def sigil_hex6_def white_triple_def Let_def

lemmas number_defs =
  expo_def quantum_def rne_def fl_def pow2_def compute_bitlen fsub_def fgt_def signed_inf_def
  Let_def

section \<open>Auxiliary lemmas\<close>

subsection \<open>Matching pairs\<close>

lemma match_all_pairs_Nil_iff:
  "match_all_pairs s = [] \<longleftrightarrow>
     (\<forall>i. Suc i < length s \<longrightarrow> is_line_terminator (s ! i) \<or> is_line_terminator (s ! Suc i))"
proof (induction s rule: match_all_pairs.induct)
  case (1 a b rest)
  show ?case
  proof (cases "\<not> is_line_terminator a \<and> \<not> is_line_terminator b")
    case True
    then show ?thesis by auto
  next
    case False
    have "(\<forall>i. Suc i < length (a # b # rest) \<longrightarrow>
              is_line_terminator ((a # b # rest) ! i) \<or>
              is_line_terminator ((a # b # rest) ! Suc i))
      \<longleftrightarrow> (\<forall>i. Suc i < length (b # rest) \<longrightarrow>
              is_line_terminator ((b # rest) ! i) \<or> is_line_terminator ((b # rest) ! Suc i))"
      (is "?L \<longleftrightarrow> ?R")
    proof
      assume L: ?L
      show ?R
      proof (intro allI impI)
        fix i assume "Suc i < length (b # rest)"
        then have "Suc (Suc i) < length (a # b # rest)" by simp
        from L[rule_format, OF this]
        show "is_line_terminator ((b # rest) ! i) \<or> is_line_terminator ((b # rest) ! Suc i)"
          by simp
      qed
    next
      assume R: ?R
      show ?L
      proof (intro allI impI)
        fix i assume i: "Suc i < length (a # b # rest)"
        show "is_line_terminator ((a # b # rest) ! i) \<or>
              is_line_terminator ((a # b # rest) ! Suc i)"
        proof (cases i)
          case 0
          then show ?thesis using False by simp
        next
          case (Suc j)
          then have "Suc j < length (b # rest)" using i by simp
          from R[rule_format, OF this] show ?thesis using Suc by simp
        qed
      qed
    qed
    then have eq: "?L = ?R" .
    have m: "match_all_pairs (a # b # rest) = match_all_pairs (b # rest)"
      using False by auto
    have ih: "(match_all_pairs (b # rest) = []) = ?R"
      using False by (rule "1.IH"(2))
    show ?thesis
      unfolding m ih eq ..
  qed
qed simp_all

lemma match_all_pairs_has_pair: "match_all_pairs s \<noteq> [] \<longleftrightarrow> has_pair s"
proof -
  have "(\<exists>i \<in> {..<length s - 1}.
           \<not> is_line_terminator (s ! i) \<and> \<not> is_line_terminator (s ! Suc i))
    \<longleftrightarrow> (\<exists>i. Suc i < length s \<and> \<not> is_line_terminator (s ! i) \<and> \<not> is_line_terminator (s ! Suc i))"
    by (auto simp: less_diff_conv)
  then show ?thesis
    unfolding has_pair_def match_all_pairs_Nil_iff by blast
qed

lemma match_pairs_None_iff: "match_pairs s = None \<longleftrightarrow> \<not> has_pair s"
  using match_all_pairs_has_pair [of s]
  by (cases "match_all_pairs s") (simp_all add: match_pairs_def)

lemma match_pairs_Some: "has_pair s \<Longrightarrow> match_pairs s = Some (match_all_pairs s)"
  using match_all_pairs_has_pair [of s]
  by (cases "match_all_pairs s") (simp_all add: match_pairs_def)

subsection \<open>Hexadecimal digits\<close>

lemma is_hex_not_special:
  assumes "is_hex c"
  shows "\<not> is_line_terminator c" "\<not> is_white_space c" "c \<noteq> 0x2B" "c \<noteq> 0x2D"
    "c \<noteq> 0x78" "c \<noteq> 0x58"
  using assms
  by (auto simp: is_hex_def is_line_terminator_def is_white_space_def word_le_nat_alt)

lemma hex_value_less: "is_hex c \<Longrightarrow> hex_value c < 16"
  by (auto simp: is_hex_def hex_value_def word_le_nat_alt)

lemma parseInt16_two_digits:
  assumes "is_hex a" "is_hex b"
  shows "parseInt16 [a, b] = Num (int (16 * hex_value a + hex_value b))"
  using assms is_hex_not_special [OF assms(1)] is_hex_not_special [OF assms(2)]
  by (simp add: parseInt16_def Let_def)

text \<open>
  On the documented format \<open>hexToSVG\<close> returns the three bytes that the three pairs of
  digits denote.
\<close>

lemma hexToSVG_well_formed:
  assumes "sigil_hex6 hex"
  shows "\<exists>r g b. r \<le> 255 \<and> g \<le> 255 \<and> b \<le> 255 \<and>
           hexToSVG hex = [Num (int r), Num (int g), Num (int b)]"
proof -
  from assms obtain z a b c d e f where h: "hex = [z, a, b, c, d, e, f]"
    and x: "is_hex a" "is_hex b" "is_hex c" "is_hex d" "is_hex e" "is_hex f"
    by (auto simp: sigil_hex6_def length_Suc_conv eval_nat_numeral)
  let ?r = "16 * hex_value a + hex_value b"
  let ?g = "16 * hex_value c + hex_value d"
  let ?b = "16 * hex_value e + hex_value f"
  have m: "match_pairs (drop 1 hex) = Some [[a, b], [c, d], [e, f]]"
    using x by (simp add: h match_pairs_def is_hex_not_special)
  have r: "?r \<le> 255" "?g \<le> 255" "?b \<le> 255"
    using x [THEN hex_value_less] by simp_all
  have "hexToSVG hex = [Num (int ?r), Num (int ?g), Num (int ?b)]"
    using x m by (simp add: hexToSVG_def parseInt16_two_digits del: of_nat_add of_nat_mult)
  with r show ?thesis by blast
qed

text \<open>
  \<open>fromHex\<close> on every string: a string of six hexadecimal digits yields a Color whose
  red and green channels are read from the digits 2 to 5 and whose blue channel is
  \<open>undefined\<close>; every other string is rejected.
\<close>

lemma fromHex_six_digits:
  assumes "test_hex6 hex"
  shows "\<exists>r g. r \<le> 255 \<and> g \<le> 255 \<and>
           fromHex hex =
             Inr (Color_new (js ''8;2;'' @ dec r @ js '';'' @ dec g @ js '';undefined''))"
proof -
  from assms obtain a b c d e f where h: "hex = [a, b, c, d, e, f]"
    and x: "is_hex a" "is_hex b" "is_hex c" "is_hex d" "is_hex e" "is_hex f"
    by (auto simp: test_hex6_def length_Suc_conv eval_nat_numeral)
  let ?r = "16 * hex_value b + hex_value c"
  let ?g = "16 * hex_value d + hex_value e"
  have m: "match_pairs (drop 1 hex) = Some [[b, c], [d, e]]"
    using x by (simp add: h match_pairs_def is_hex_not_special)
  have r: "?r \<le> 255" "?g \<le> 255"
    using hex_value_less [OF x(2)] hex_value_less [OF x(3)] hex_value_less [OF x(4)]
      hex_value_less [OF x(5)] by simp_all
  have "fromHex hex = fromRGB (Num (int ?r)) (Num (int ?g)) Undefined"
    using assms x m by (simp add: fromHex_def element_def parseInt16_two_digits)
  also have "\<dots> =
      Inr (Color_new (js ''8;2;'' @ dec ?r @ js '';'' @ dec ?g @ js '';undefined''))"
  proof -
    have n: "nat (16 * int x + int y) = 16 * x + y" for x y
      by linarith
    show ?thesis
      using r by (simp add: fromRGB_def js_def n)
  qed
  finally show ?thesis using r by blast
qed

lemma fromHex_raises_iff: "isl (fromHex hex) \<longleftrightarrow> \<not> test_hex6 hex"
  using fromHex_six_digits [of hex] by (auto simp: fromHex_def)

subsection \<open>Rounding to the nearest double\<close>

lemma pow2_powi: "pow2 k = 2 powi k"
  by (simp add: pow2_def power_int_def power_one_over inverse_eq_divide)

lemma pow2_pos: "0 < pow2 k"
  by (simp add: pow2_powi)

lemma quantum_pos: "0 < quantum x"
  by (simp add: quantum_def pow2_pos)

lemma powi_less_D: "(2::real) powi m < 2 powi n \<Longrightarrow> m < n"
  using power_int_increasing [of n m "2::real"] by (cases "m < n") simp_all

lemma powi_le_D: "(2::real) powi m \<le> 2 powi n \<Longrightarrow> m \<le> n"
  using power_int_strict_increasing [of n m "2::real"] by (cases "m \<le> n") simp_all

lemma powi_mono: "m \<le> n \<Longrightarrow> (2::real) powi m \<le> 2 powi n"
  by (rule power_int_increasing) simp_all

lemma powi_nat: "0 \<le> k \<Longrightarrow> (2::real) powi k = of_int (2 ^ nat k)"
  by (simp add: power_int_def)

lemma expo_bounds:
  assumes "x \<noteq> 0"
  shows "2 powi (expo x) \<le> \<bar>x\<bar>" "\<bar>x\<bar> < 2 powi (expo x + 1)"
proof -
  have "2 powi (expo x) \<le> \<bar>x\<bar> \<and> \<bar>x\<bar> < 2 powi (expo x + 1)"
  proof (cases "1 \<le> \<bar>x\<bar>")
    case True
    define n where "n = \<lfloor>\<bar>x\<bar>\<rfloor>"
    have n: "0 < n" using True by (simp add: n_def)
    have e: "expo x = bitlen n - 1" using True by (simp add: expo_def n_def)
    have b1: "1 \<le> bitlen n" using n by (simp add: bitlen_alt_def)
    from bitlen_bounds [OF n] have lo: "2 ^ nat (bitlen n - 1) \<le> n" and hi: "n < 2 ^ nat (bitlen n)"
      by simp_all
    have "(2::real) powi (expo x) = of_int (2 ^ nat (bitlen n - 1))"
      using b1 by (simp add: e power_int_def)
    also have "\<dots> \<le> of_int n" using lo by (simp only: of_int_le_iff)
    also have "\<dots> \<le> \<bar>x\<bar>" by (simp add: n_def)
    finally have 1: "2 powi (expo x) \<le> \<bar>x\<bar>" .
    from hi have "n + 1 \<le> 2 ^ nat (bitlen n)" by simp
    then have "of_int (n + 1) \<le> (of_int (2 ^ nat (bitlen n)) :: real)"
      by (simp only: of_int_le_iff)
    moreover have "\<bar>x\<bar> < of_int (n + 1)" unfolding n_def by linarith
    ultimately have "\<bar>x\<bar> < of_int (2 ^ nat (bitlen n))" by linarith
    also have "(of_int (2 ^ nat (bitlen n)) :: real) = 2 powi (expo x + 1)"
      using b1 by (simp add: e power_int_def)
    finally show ?thesis using 1 by simp
  next
    case False
    then have x1: "\<bar>x\<bar> < 1" by simp
    have x0: "0 < \<bar>x\<bar>" using assms by simp
    define y where "y = 1 / \<bar>x\<bar>"
    have y1: "1 < y" using x0 x1 by (simp add: y_def)
    define m where "m = \<lceil>y\<rceil> - 1"
    have m: "0 < m" using y1 unfolding m_def by linarith
    have e: "expo x = - bitlen m" using False by (simp add: expo_def m_def y_def)
    have b1: "1 \<le> bitlen m" using m by (simp add: bitlen_alt_def)
    from bitlen_bounds [OF m] have lo: "2 ^ nat (bitlen m - 1) \<le> m" and hi: "m < 2 ^ nat (bitlen m)"
      by simp_all
    have ym: "of_int m < y" "y \<le> of_int m + 1" unfolding m_def by linarith+
    from hi have "m + 1 \<le> 2 ^ nat (bitlen m)" by simp
    then have "of_int (m + 1) \<le> (of_int (2 ^ nat (bitlen m)) :: real)"
      by (simp only: of_int_le_iff)
    with ym have yhi: "y \<le> 2 ^ nat (bitlen m)" by simp
    from lo have "(of_int (2 ^ nat (bitlen m - 1)) :: real) \<le> of_int m"
      by (simp only: of_int_le_iff)
    also have "\<dots> < y" by (rule ym)
    finally have ylo: "2 ^ nat (bitlen m - 1) < y" by simp
    have xy: "\<bar>x\<bar> = 1 / y" using x0 by (simp add: y_def)
    have p1: "(2::real) powi (expo x) = 1 / 2 ^ nat (bitlen m)"
      using b1 by (simp add: e power_int_def power_one_over inverse_eq_divide)
    have p2: "(2::real) powi (expo x + 1) = 1 / 2 ^ nat (bitlen m - 1)"
    proof -
      have "expo x + 1 = - (bitlen m - 1)" by (simp add: e)
      moreover have "0 \<le> bitlen m - 1" using b1 by simp
      ultimately show ?thesis
        by (simp add: power_int_def power_one_over inverse_eq_divide)
    qed
    have "1 / 2 ^ nat (bitlen m) \<le> 1 / y"
      using yhi y1 by (intro divide_left_mono) simp_all
    moreover have "1 / y < 1 / 2 ^ nat (bitlen m - 1)"
      using ylo y1 by (intro divide_strict_left_mono) simp_all
    ultimately show ?thesis by (simp add: p1 p2 xy)
  qed
  then show "2 powi (expo x) \<le> \<bar>x\<bar>" "\<bar>x\<bar> < 2 powi (expo x + 1)" by simp_all
qed

lemma expo_unique:
  assumes "2 powi e \<le> \<bar>x\<bar>" "\<bar>x\<bar> < 2 powi (e + 1)"
  shows "expo x = e"
proof -
  have "(0::real) < 2 powi e" by simp
  with assms have "0 < \<bar>x\<bar>" by linarith
  then have x: "x \<noteq> 0" by simp
  from expo_bounds [OF x] assms
  have a: "(2::real) powi (expo x) < 2 powi (e + 1)" and b: "(2::real) powi e < 2 powi (expo x + 1)"
    by linarith+
  from powi_less_D [OF a] powi_less_D [OF b] show ?thesis by simp
qed



lemma rne_err: "\<bar>of_int (rne y) - y\<bar> \<le> 1 / 2"
  unfolding rne_def Let_def by (auto; linarith)

lemma rne_le: "y \<le> of_int k \<Longrightarrow> rne y \<le> k"
  unfolding rne_def Let_def by (auto; linarith)

lemma rne_ge: "of_int k \<le> y \<Longrightarrow> k \<le> rne y"
  unfolding rne_def Let_def by (auto; linarith)

lemma rne_of_int: "rne (of_int k) = k"
  using rne_le [of "of_int k" k] rne_ge [of k "of_int k"] by simp

lemma quantum_powi: "quantum x = 2 powi (max (expo x) (- 1022) - 52)"
  by (simp add: quantum_def pow2_powi)

lemma powi_split: "(2::real) powi j = 2 powi k * 2 powi (j - k)"
  by (simp flip: power_int_add)

lemma fl_unfold:
  "fl x = (if 2 ^ 1024 \<le> \<bar>quantum x * of_int (rne (x / quantum x))\<bar>
           then (if 0 < x then PInf else NInf)
           else Fin (quantum x * of_int (rne (x / quantum x))))"
  by (simp add: fl_def Let_def)

lemma fl_zero: "fl 0 = Fin 0"
  by (simp add: fl_unfold rne_def)

text \<open>Rounding a number of magnitude at most \<open>2^j\<close>.\<close>

lemma fl_scale:
  assumes x: "\<bar>x\<bar> \<le> 2 powi j" and j: "- 1022 \<le> j" "j \<le> 1023"
  shows "\<exists>y. fl x = Fin y \<and> \<bar>y - x\<bar> \<le> 2 powi (j - 53) \<and> \<bar>y\<bar> \<le> 2 powi j \<and>
    (0 \<le> x \<longrightarrow> 0 \<le> y) \<and> (x \<le> 0 \<longrightarrow> y \<le> 0)"
proof -
  define q where "q = quantum x"
  define n where "n = rne (x / q)"
  define y where "y = q * of_int n"
  have q0: "0 < q" by (simp add: q_def quantum_pos)
  have top: "(2::real) powi j < 2 ^ 1024"
  proof -
    have "(2::real) powi j \<le> 2 powi 1023" using j by (intro powi_mono) simp
    also have "\<dots> < 2 ^ 1024" by simp
    finally show ?thesis .
  qed
  have sgn1: "0 \<le> y" if "0 \<le> x"
  proof -
    have "of_int 0 \<le> x / q" using that q0 by simp
    then have "0 \<le> n" unfolding n_def by (rule rne_ge)
    then show ?thesis using q0 by (simp add: y_def)
  qed
  have sgn2: "y \<le> 0" if "x \<le> 0"
  proof -
    have "x / q \<le> of_int 0" using that q0 by (simp add: divide_le_0_iff)
    then have "n \<le> 0" unfolding n_def by (rule rne_le)
    then show ?thesis using q0 by (simp add: y_def mult_le_0_iff)
  qed
  have err: "\<bar>y - x\<bar> \<le> q / 2"
  proof -
    have "y - x = q * (of_int n - x / q)" using q0 by (simp add: y_def algebra_simps)
    then have "\<bar>y - x\<bar> = q * \<bar>of_int n - x / q\<bar>" using q0 by (simp add: abs_mult)
    also have "\<dots> \<le> q * (1 / 2)"
      using q0 rne_err [of "x / q"] unfolding n_def by (intro mult_left_mono) simp_all
    finally show ?thesis by simp
  qed
  have bounds: "\<bar>y - x\<bar> \<le> 2 powi (j - 53) \<and> \<bar>y\<bar> \<le> 2 powi j"
  proof (cases "x = 0")
    case True
    then have "y = 0" by (simp add: y_def n_def rne_def)
    then show ?thesis using True by simp
  next
    case False
    define k where "k = max (expo x) (- 1022) - 52"
    have qk: "q = 2 powi k" by (simp add: q_def k_def quantum_powi)
    have "expo x \<le> j"
    proof -
      from expo_bounds(1) [OF False] x have "(2::real) powi (expo x) \<le> 2 powi j" by linarith
      then show ?thesis by (rule powi_le_D)
    qed
    then have kj: "k \<le> j - 52" using j by (simp add: k_def)
    define R :: int where "R = 2 ^ nat (j - k)"
    have jk: "(2::real) powi j = q * of_int R"
    proof -
      have "(2::real) powi (j - k) = of_int R" using kj unfolding R_def by (intro powi_nat) simp
      then show ?thesis using powi_split [of j k] by (simp add: qk)
    qed
    have "x / q \<le> of_int R"
    proof -
      have "x \<le> q * of_int R" using x jk by linarith
      then show ?thesis using q0 by (simp add: pos_divide_le_eq mult.commute)
    qed
    then have n1: "n \<le> R" unfolding n_def by (rule rne_le)
    have "of_int (- R) \<le> x / q"
    proof -
      have "- (q * of_int R) \<le> x" using x jk by linarith
      then show ?thesis using q0 by (simp add: pos_le_divide_eq mult.commute)
    qed
    then have n2: "- R \<le> n" unfolding n_def by (rule rne_ge)
    have "\<bar>n\<bar> \<le> R" using n1 n2 by simp
    then have "\<bar>of_int n :: real\<bar> \<le> of_int R" by linarith
    then have "q * \<bar>of_int n :: real\<bar> \<le> q * of_int R" using q0 by (intro mult_left_mono) simp_all
    then have y1: "\<bar>y\<bar> \<le> 2 powi j" using q0 by (simp add: y_def abs_mult jk)
    have "q \<le> 2 powi (j - 52)" unfolding qk using kj by (rule powi_mono)
    then have "q / 2 \<le> 2 powi (j - 52) / 2" by simp
    also have "(2::real) powi (j - 52) / 2 = 2 powi (j - 53)"
      using power_int_diff [of "2::real" "j - 52" 1] by simp
    finally have "\<bar>y - x\<bar> \<le> 2 powi (j - 53)" using err by linarith
    then show ?thesis using y1 by simp
  qed
  have "\<not> 2 ^ 1024 \<le> \<bar>y\<bar>" using bounds top by linarith
  then have "fl x = Fin y" unfolding fl_unfold y_def n_def q_def by simp
  then show ?thesis using bounds sgn1 sgn2 by blast
qed




subsection \<open>Rounding at the scales of the conversions\<close>

lemma eps_pos: "0 < eps"
  by (simp add: eps_def)

lemma eps_small: "100000 * eps \<le> 1 / 1000"
  by (simp add: eps_def)

lemma fl_le1:
  assumes "\<bar>x\<bar> \<le> 1"
  shows "\<exists>y. fl x = Fin y \<and> \<bar>y - x\<bar> \<le> eps \<and> \<bar>y\<bar> \<le> 1 \<and> (0 \<le> x \<longrightarrow> 0 \<le> y) \<and> (x \<le> 0 \<longrightarrow> y \<le> 0)"
  using fl_scale [of x 0] assms by (simp add: eps_def)

lemma fl_le2:
  assumes "\<bar>x\<bar> \<le> 2"
  shows "\<exists>y. fl x = Fin y \<and> \<bar>y - x\<bar> \<le> 2 * eps \<and> \<bar>y\<bar> \<le> 2 \<and> (0 \<le> x \<longrightarrow> 0 \<le> y) \<and> (x \<le> 0 \<longrightarrow> y \<le> 0)"
  using fl_scale [of x 1] assms by (simp add: eps_def)

lemma fl_le8:
  assumes "\<bar>x\<bar> \<le> 8"
  shows "\<exists>y. fl x = Fin y \<and> \<bar>y - x\<bar> \<le> 8 * eps \<and> \<bar>y\<bar> \<le> 8 \<and> (0 \<le> x \<longrightarrow> 0 \<le> y) \<and> (x \<le> 0 \<longrightarrow> y \<le> 0)"
  using fl_scale [of x 3] assms by (simp add: eps_def)

lemma fl_le256:
  assumes "\<bar>x\<bar> \<le> 256"
  shows "\<exists>y. fl x = Fin y \<and> \<bar>y - x\<bar> \<le> 256 * eps \<and> \<bar>y\<bar> \<le> 256 \<and> (0 \<le> x \<longrightarrow> 0 \<le> y) \<and> (x \<le> 0 \<longrightarrow> y \<le> 0)"
  using fl_scale [of x 8] assms by (simp add: eps_def)

lemma mult_err:
  fixes a b A B :: real
  assumes "\<bar>a - A\<bar> \<le> \<alpha>" "\<bar>b - B\<bar> \<le> \<beta>" "\<bar>b\<bar> \<le> 1" "\<bar>A\<bar> \<le> 1"
  shows "\<bar>a * b - A * B\<bar> \<le> \<alpha> + \<beta>"
proof -
  have "a * b - A * B = (a - A) * b + A * (b - B)" by (simp add: algebra_simps)
  then have "\<bar>a * b - A * B\<bar> \<le> \<bar>(a - A) * b\<bar> + \<bar>A * (b - B)\<bar>" by simp
  also have "\<bar>(a - A) * b\<bar> \<le> \<alpha> * 1"
    unfolding abs_mult using assms by (intro mult_mono) simp_all
  also have "\<bar>A * (b - B)\<bar> \<le> 1 * \<beta>"
    unfolding abs_mult using assms by (intro mult_mono) simp_all
  finally show ?thesis by simp
qed

text \<open>The product of two numbers of the unit interval.\<close>

lemma fmul_unit:
  assumes "0 \<le> a" "a \<le> 1" "0 \<le> b" "b \<le> 1" "\<bar>a - A\<bar> \<le> \<alpha>" "\<bar>b - B\<bar> \<le> \<beta>" "\<bar>A\<bar> \<le> 1"
  shows "\<exists>p. fmul (Fin a) (Fin b) = Fin p \<and> 0 \<le> p \<and> p \<le> 1 \<and> \<bar>p - A * B\<bar> \<le> \<alpha> + \<beta> + eps"
proof -
  have ab: "0 \<le> a * b" "a * b \<le> 1"
    using assms mult_mono [of a 1 b 1] by simp_all
  then have "\<bar>a * b\<bar> \<le> 1" by simp
  from fl_le1 [OF this] ab obtain p where p: "fl (a * b) = Fin p" "\<bar>p - a * b\<bar> \<le> eps"
    "\<bar>p\<bar> \<le> 1" "0 \<le> p" by auto
  have "\<bar>a * b - A * B\<bar> \<le> \<alpha> + \<beta>" using assms by (intro mult_err) simp_all
  with p show ?thesis by (intro exI [of _ p]) simp
qed

text \<open>The hundredth of a percentage.\<close>

lemma fdiv_percent:
  assumes "0 \<le> s" "s \<le> 100"
  shows "\<exists>s'. fdiv (Fin s) (Fin 100) = Fin s' \<and> 0 \<le> s' \<and> s' \<le> 1 \<and> \<bar>s' - s / 100\<bar> \<le> eps"
proof -
  have "\<bar>s / 100\<bar> \<le> 1" "0 \<le> s / 100" using assms by simp_all
  from fl_le1 [OF this(1)] this(2) obtain y where "fl (s / 100) = Fin y" "\<bar>y - s / 100\<bar> \<le> eps"
    "\<bar>y\<bar> \<le> 1" "0 \<le> y" by auto
  then show ?thesis by (intro exI [of _ y]) simp
qed

subsection \<open>The triangle wave of the hue\<close>

lemma spec_mod_range: "0 \<le> spec_mod a 2" "spec_mod a 2 < 2"
proof -
  have "of_int \<lfloor>a / 2\<rfloor> \<le> a / 2" "a / 2 < of_int \<lfloor>a / 2\<rfloor> + 1" by linarith+
  then show "0 \<le> spec_mod a 2" "spec_mod a 2 < 2" unfolding spec_mod_def by linarith+
qed

lemma triangle_range:
  "0 \<le> 1 - \<bar>spec_mod a 2 - 1\<bar>" "1 - \<bar>spec_mod a 2 - 1\<bar> \<le> 1"
  using spec_mod_range [of a] by simp_all

text \<open>The wave at \<open>a\<close> is the distance from \<open>a\<close> to the nearest even integer.\<close>

lemma triangle_le_dist: "1 - \<bar>spec_mod a 2 - 1\<bar> \<le> \<bar>a - 2 * of_int n\<bar>"
proof -
  define q where "q = \<lfloor>a / 2\<rfloor>"
  define r where "r = spec_mod a 2"
  have r: "0 \<le> r" "r < 2" unfolding r_def by (rule spec_mod_range)+
  have a: "a = r + 2 * of_int q" by (simp add: r_def q_def spec_mod_def)
  show ?thesis
  proof (cases "n \<le> q")
    case True
    then have "(of_int n :: real) \<le> of_int q" by simp
    then have "r \<le> a - 2 * of_int n" using a by simp
    then show ?thesis using r unfolding r_def [symmetric] by linarith
  next
    case False
    then have "q + 1 \<le> n" by simp
    then have "(of_int (q + 1) :: real) \<le> of_int n" by (simp only: of_int_le_iff)
    then have "2 - r \<le> 2 * of_int n - a" using a by simp
    then show ?thesis using r unfolding r_def [symmetric] by linarith
  qed
qed

lemma triangle_is_dist: "\<exists>n. 1 - \<bar>spec_mod a 2 - 1\<bar> = \<bar>a - 2 * of_int n\<bar>"
proof -
  define q where "q = \<lfloor>a / 2\<rfloor>"
  define r where "r = spec_mod a 2"
  have r: "0 \<le> r" "r < 2" unfolding r_def by (rule spec_mod_range)+
  have a: "a = r + 2 * of_int q" by (simp add: r_def q_def spec_mod_def)
  show ?thesis
  proof (cases "r \<le> 1")
    case True
    then have "1 - \<bar>r - 1\<bar> = \<bar>a - 2 * of_int q\<bar>" using r a by simp
    then show ?thesis unfolding r_def by blast
  next
    case False
    then have "1 - \<bar>r - 1\<bar> = \<bar>a - 2 * of_int (q + 1)\<bar>" using r a by simp
    then show ?thesis unfolding r_def by blast
  qed
qed

lemma triangle_lipschitz:
  "\<bar>(1 - \<bar>spec_mod a 2 - 1\<bar>) - (1 - \<bar>spec_mod b 2 - 1\<bar>)\<bar> \<le> \<bar>a - b\<bar>"
proof -
  define ta where "ta = 1 - \<bar>spec_mod a 2 - 1\<bar>"
  define tb where "tb = 1 - \<bar>spec_mod b 2 - 1\<bar>"
  obtain n where n: "ta = \<bar>a - 2 * of_int n\<bar>"
    unfolding ta_def using triangle_is_dist by blast
  obtain k where k: "tb = \<bar>b - 2 * of_int k\<bar>"
    unfolding tb_def using triangle_is_dist by blast
  have "ta \<le> \<bar>a - 2 * of_int k\<bar>" unfolding ta_def by (rule triangle_le_dist)
  also have "\<dots> \<le> \<bar>a - b\<bar> + \<bar>b - 2 * of_int k\<bar>" by simp
  finally have 1: "ta \<le> \<bar>a - b\<bar> + tb" by (simp add: k)
  have "tb \<le> \<bar>b - 2 * of_int n\<bar>" unfolding tb_def by (rule triangle_le_dist)
  also have "\<dots> \<le> \<bar>a - b\<bar> + \<bar>a - 2 * of_int n\<bar>" by simp
  finally have 2: "tb \<le> \<bar>a - b\<bar> + ta" by (simp add: n)
  from 1 2 have "\<bar>ta - tb\<bar> \<le> \<bar>a - b\<bar>" by simp
  then show ?thesis by (simp only: ta_def tb_def)
qed

lemma frem_spec_mod: "0 \<le> a \<Longrightarrow> frem (Fin a) (Fin 2) = spec_mod_fl (Fin a) 2"
  by (simp add: spec_mod_def not_less)

text \<open>The factor \<open>1 - |((h/60) % 2) - 1|\<close> in doubles.\<close>

lemma hue_factor:
  assumes "0 \<le> h" "h \<le> 360"
  shows "\<exists>f. fsub (Fin 1) (Math_abs (fsub (frem (fdiv (Fin h) (Fin 60)) (Fin 2)) (Fin 1))) = Fin f \<and>
    frem (fdiv (Fin h) (Fin 60)) (Fin 2) = spec_mod_fl (fdiv (Fin h) (Fin 60)) 2 \<and>
    0 \<le> f \<and> f \<le> 1 \<and> \<bar>f - (1 - \<bar>spec_mod (h / 60) 2 - 1\<bar>)\<bar> \<le> 10 * eps"
proof -
  have "\<bar>h / 60\<bar> \<le> 8" "0 \<le> h / 60" using assms by simp_all
  from fl_le8 [OF this(1)] this(2) obtain q where q: "fl (h / 60) = Fin q"
    "\<bar>q - h / 60\<bar> \<le> 8 * eps" "0 \<le> q" by auto
  define r where "r = spec_mod q 2"
  have r: "0 \<le> r" "r < 2" unfolding r_def by (rule spec_mod_range)+
  have rem: "frem (Fin q) (Fin 2) = Fin r"
    using q(3) by (simp add: r_def spec_mod_def not_less)
  have "\<bar>r - 1\<bar> \<le> 1" using r by simp
  from fl_le1 [OF this] obtain u where u: "fl (r - 1) = Fin u" "\<bar>u - (r - 1)\<bar> \<le> eps" "\<bar>u\<bar> \<le> 1"
    by auto
  have "\<bar>1 - \<bar>u\<bar>\<bar> \<le> 1" "0 \<le> 1 - \<bar>u\<bar>" using u(3) by simp_all
  from fl_le1 [OF this(1)] this(2) obtain f where f: "fl (1 - \<bar>u\<bar>) = Fin f"
    "\<bar>f - (1 - \<bar>u\<bar>)\<bar> \<le> eps" "\<bar>f\<bar> \<le> 1" "0 \<le> f" by auto
  define tq where "tq = 1 - \<bar>r - 1\<bar>"
  define th where "th = 1 - \<bar>spec_mod (h / 60) 2 - 1\<bar>"
  have "\<bar>\<bar>u\<bar> - \<bar>r - 1\<bar>\<bar> \<le> \<bar>u - (r - 1)\<bar>" by (rule abs_triangle_ineq3)
  then have "\<bar>(1 - \<bar>u\<bar>) - tq\<bar> \<le> eps" using u(2) unfolding tq_def by simp
  then have "\<bar>f - tq\<bar> \<le> 2 * eps" using f(2) by simp
  moreover have "\<bar>tq - th\<bar> \<le> \<bar>q - h / 60\<bar>"
    unfolding tq_def th_def r_def by (rule triangle_lipschitz)
  ultimately have "\<bar>f - th\<bar> \<le> 10 * eps"
    using q(2) by simp
  then have e: "\<bar>f - (1 - \<bar>spec_mod (h / 60) 2 - 1\<bar>)\<bar> \<le> 10 * eps"
    by (simp only: th_def)
  have d: "fdiv (Fin h) (Fin 60) = Fin q" by (simp add: q(1))
  have s1: "fsub (Fin r) (Fin 1) = Fin u" by (simp add: fsub_def u(1))
  have s2: "fsub (Fin 1) (Math_abs (Fin u)) = Fin f" by (simp add: fsub_def f(1))
  have "fsub (Fin 1) (Math_abs (fsub (frem (fdiv (Fin h) (Fin 60)) (Fin 2)) (Fin 1))) = Fin f"
    by (simp only: d rem s1 s2)
  moreover have "frem (fdiv (Fin h) (Fin 60)) (Fin 2) = spec_mod_fl (fdiv (Fin h) (Fin 60)) 2"
    by (simp only: d frem_spec_mod [OF q(3)])
  ultimately show ?thesis using f(3,4) e by (intro exI [of _ f]) simp
qed

lemma near_channel_def:
  "near_channel a k = (\<exists>i. a = Num i \<and> 0 \<le> i \<and> i \<le> 255 \<and> \<bar>i - k\<bar> \<le> 1)"
  by (cases a) simp_all

subsection \<open>Chroma and offset in doubles\<close>

lemma hsl_chroma:
  assumes s: "0 \<le> s'" "s' \<le> 1" "\<bar>s' - S\<bar> \<le> eps" and l: "0 \<le> l'" "l' \<le> 1" "\<bar>l' - L\<bar> \<le> eps"
    and L: "0 \<le> L" "L \<le> 1" and S: "0 \<le> S" "S \<le> 1"
  shows "\<exists>c m. fmul (fsub (Fin 1) (Math_abs (fsub (fmul (Fin 2) (Fin l')) (Fin 1)))) (Fin s') = Fin c \<and>
    fsub (Fin l') (fdiv (Fin c) (Fin 2)) = Fin m \<and> 0 \<le> c \<and> c \<le> 1 \<and>
    \<bar>c - (1 - \<bar>2 * L - 1\<bar>) * S\<bar> \<le> 8 * eps \<and>
    \<bar>m - (L - (1 - \<bar>2 * L - 1\<bar>) * S / 2)\<bar> \<le> 7 * eps"
proof -
  define K where "K = 1 - \<bar>2 * L - 1\<bar>"
  have K: "0 \<le> K" "K \<le> 1" using L unfolding K_def by simp_all
  have "\<bar>2 * l'\<bar> \<le> 2" "0 \<le> 2 * l'" using l by simp_all
  from fl_le2 [OF this(1)] this(2) obtain t where t: "fl (2 * l') = Fin t"
    "\<bar>t - 2 * l'\<bar> \<le> 2 * eps" "\<bar>t\<bar> \<le> 2" "0 \<le> t" by auto
  have "\<bar>t - 1\<bar> \<le> 1" using t(3,4) by simp
  from fl_le1 [OF this] obtain d where d: "fl (t - 1) = Fin d" "\<bar>d - (t - 1)\<bar> \<le> eps" "\<bar>d\<bar> \<le> 1"
    by auto
  have "\<bar>1 - \<bar>d\<bar>\<bar> \<le> 1" "0 \<le> 1 - \<bar>d\<bar>" using d(3) by simp_all
  from fl_le1 [OF this(1)] this(2) obtain k where k: "fl (1 - \<bar>d\<bar>) = Fin k"
    "\<bar>k - (1 - \<bar>d\<bar>)\<bar> \<le> eps" "\<bar>k\<bar> \<le> 1" "0 \<le> k" by auto
  have "\<bar>d - (2 * L - 1)\<bar> \<le> 5 * eps" using d(2) t(2) l(3) by simp
  moreover have "\<bar>\<bar>d\<bar> - \<bar>2 * L - 1\<bar>\<bar> \<le> \<bar>d - (2 * L - 1)\<bar>" by (rule abs_triangle_ineq3)
  ultimately have "\<bar>(1 - \<bar>d\<bar>) - K\<bar> \<le> 5 * eps" unfolding K_def by simp
  then have kK: "\<bar>k - K\<bar> \<le> 6 * eps" using k(2) by simp
  have k1: "k \<le> 1" using k(3) by simp
  have AK: "\<bar>K\<bar> \<le> 1" using K by simp
  from fmul_unit [OF k(4) k1 s(1) s(2) kK s(3) AK]
  obtain c where c: "fmul (Fin k) (Fin s') = Fin c" "0 \<le> c" "c \<le> 1" "\<bar>c - K * S\<bar> \<le> 8 * eps"
    by auto
  have "\<bar>c / 2\<bar> \<le> 1" "0 \<le> c / 2" using c(2,3) by simp_all
  from fl_le1 [OF this(1)] this(2) obtain g where g: "fl (c / 2) = Fin g" "\<bar>g - c / 2\<bar> \<le> eps"
    "\<bar>g\<bar> \<le> 1" "0 \<le> g" by auto
  have "\<bar>l' - g\<bar> \<le> 1" using l(1,2) g(3,4) by simp
  from fl_le1 [OF this] obtain m where m: "fl (l' - g) = Fin m" "\<bar>m - (l' - g)\<bar> \<le> eps"
    by auto
  have mM: "\<bar>m - (L - K * S / 2)\<bar> \<le> 7 * eps" using m(2) g(2) c(4) l(3) by simp
  have e1: "fmul (Fin 2) (Fin l') = Fin t" by (simp add: t(1))
  have e2: "fsub (Fin t) (Fin 1) = Fin d" by (simp add: fsub_def d(1))
  have e3: "fsub (Fin 1) (Math_abs (Fin d)) = Fin k" by (simp add: fsub_def k(1))
  have e4: "fdiv (Fin c) (Fin 2) = Fin g" by (simp add: g(1))
  have e5: "fsub (Fin l') (Fin g) = Fin m" by (simp add: fsub_def m(1))
  have "fmul (fsub (Fin 1) (Math_abs (fsub (fmul (Fin 2) (Fin l')) (Fin 1)))) (Fin s') = Fin c"
    by (simp only: e1 e2 e3 c(1))
  moreover have "fsub (Fin l') (fdiv (Fin c) (Fin 2)) = Fin m"
    by (simp only: e4 e5)
  ultimately show ?thesis using c(2,3,4) mM unfolding K_def by blast
qed

lemma hsv_chroma:
  assumes s: "0 \<le> s'" "s' \<le> 1" "\<bar>s' - S\<bar> \<le> eps" and v: "0 \<le> v'" "v' \<le> 1" "\<bar>v' - V\<bar> \<le> eps"
    and V: "0 \<le> V" "V \<le> 1"
  shows "\<exists>c m. fmul (Fin v') (Fin s') = Fin c \<and> fsub (Fin v') (Fin c) = Fin m \<and> 0 \<le> c \<and> c \<le> 1 \<and>
    \<bar>c - V * S\<bar> \<le> 8 * eps \<and> \<bar>m - (V - V * S)\<bar> \<le> 7 * eps"
proof -
  have AV: "\<bar>V\<bar> \<le> 1" using V by simp
  from fmul_unit [OF v(1) v(2) s(1) s(2) v(3) s(3) AV]
  obtain c where c: "fmul (Fin v') (Fin s') = Fin c" "0 \<le> c" "c \<le> 1"
    "\<bar>c - V * S\<bar> \<le> eps + eps + eps" by auto
  have "\<bar>v' - c\<bar> \<le> 1" using v(1,2) c(2,3) by simp
  from fl_le1 [OF this] obtain m where m: "fl (v' - c) = Fin m" "\<bar>m - (v' - c)\<bar> \<le> eps"
    by auto
  have mM: "\<bar>m - (V - V * S)\<bar> \<le> 7 * eps" using m(2) c(4) v(3) eps_pos by simp
  have cC: "\<bar>c - V * S\<bar> \<le> 8 * eps" using c(4) eps_pos by simp
  have "fsub (Fin v') (Fin c) = Fin m" by (simp add: fsub_def m(1))
  then show ?thesis using c(1,2,3) cC mM by blast
qed

subsection \<open>One channel\<close>

lemma Math_round_nearest: "Math_round a = spec_nearest a"
  by (cases a) (simp_all add: round_def)

lemma floor_near:
  fixes p E :: real
  assumes "\<bar>p - E\<bar> \<le> 1"
  shows "\<bar>\<lfloor>p + 1 / 2\<rfloor> - round E\<bar> \<le> 1"
proof -
  have "\<lfloor>p + 1 / 2\<rfloor> \<le> \<lfloor>E + 1 / 2 + 1\<rfloor>" using assms by (intro floor_mono) simp
  moreover have "\<lfloor>E + 1 / 2 - 1\<rfloor> \<le> \<lfloor>p + 1 / 2\<rfloor>" using assms by (intro floor_mono) simp
  moreover have "\<lfloor>E + 1 / 2 + 1\<rfloor> = \<lfloor>E + 1 / 2\<rfloor> + 1" "\<lfloor>E + 1 / 2 - 1\<rfloor> = \<lfloor>E + 1 / 2\<rfloor> - 1"
    by linarith+
  ultimately show ?thesis unfolding round_def by linarith
qed

lemma channel_near:
  assumes v: "\<bar>v - V\<bar> \<le> 32 * eps" and m: "\<bar>m - M\<bar> \<le> 32 * eps" and VM: "0 \<le> V + M" "V + M \<le> 1"
  shows "near_channel (Math_round (fmul (fadd (Fin v) (Fin m)) (Fin 255))) (round ((V + M) * 255))"
proof -
  note e = eps_pos eps_small
  have vm: "\<bar>(v + m) - (V + M)\<bar> \<le> 64 * eps" using v m by simp
  then have "\<bar>v + m\<bar> \<le> 2" using VM e by linarith
  from fl_le2 [OF this] obtain w where w: "fl (v + m) = Fin w" "\<bar>w - (v + m)\<bar> \<le> 2 * eps"
    by auto
  have wV: "\<bar>w - (V + M)\<bar> \<le> 66 * eps" using w(2) vm by simp
  then have "\<bar>w\<bar> \<le> 256 / 255" using VM e by linarith
  then have "\<bar>w * 255\<bar> \<le> 256" by (simp add: abs_mult)
  from fl_le256 [OF this] obtain p where p: "fl (w * 255) = Fin p" "\<bar>p - w * 255\<bar> \<le> 256 * eps"
    by auto
  define E where "E = (V + M) * 255"
  have "w * 255 - (V + M) * 255 = (w - (V + M)) * 255" by (simp add: algebra_simps)
  then have "\<bar>w * 255 - (V + M) * 255\<bar> = \<bar>(w - (V + M)) * 255\<bar>" by (rule arg_cong)
  also have "\<dots> = \<bar>w - (V + M)\<bar> * 255" by (simp only: abs_mult abs_numeral)
  finally have wE: "\<bar>w * 255 - E\<bar> \<le> 66 * eps * 255" using wV unfolding E_def by simp
  have "\<bar>p - E\<bar> \<le> \<bar>p - w * 255\<bar> + \<bar>w * 255 - E\<bar>" by simp
  then have pE: "\<bar>p - E\<bar> \<le> 1 / 4" using p(2) wE e by linarith
  have E: "0 \<le> E" "E \<le> 255" using VM unfolding E_def by simp_all
  have "0 \<le> p + 1 / 2" "p + 1 / 2 < 256" using pE E by linarith+
  then have i: "0 \<le> \<lfloor>p + 1 / 2\<rfloor>" "\<lfloor>p + 1 / 2\<rfloor> \<le> 255" by linarith+
  have "\<bar>p - E\<bar> \<le> 1" using pE by linarith
  then have "\<bar>\<lfloor>p + 1 / 2\<rfloor> - round E\<bar> \<le> 1" by (rule floor_near)
  moreover have "Math_round (fmul (fadd (Fin v) (Fin m)) (Fin 255)) = Num \<lfloor>p + 1 / 2\<rfloor>"
    by (simp add: w(1) p(1))
  ultimately show ?thesis using i unfolding E_def by (simp add: near_channel_def)
qed

subsection \<open>The six sectors\<close>

lemma sector_index:
  fixes h :: real
  assumes "0 \<le> h"
  shows "\<exists>k<6. (h < 360 \<longrightarrow> k = nat \<lfloor>h / 60\<rfloor>) \<and>
    (if h < 60 then [c, x, z]
     else if h < 120 then [x, c, z]
     else if h < 180 then [z, c, x]
     else if h < 240 then [z, x, c]
     else if h < 300 then [x, z, c]
     else [c, z, x]) = spec_sectors z c x ! k"
proof -
  consider "h < 60" | "60 \<le> h" "h < 120" | "120 \<le> h" "h < 180" | "180 \<le> h" "h < 240"
    | "240 \<le> h" "h < 300" | "300 \<le> h" "h < 360" | "360 \<le> h"
    by linarith
  then show ?thesis
  proof cases
    case 1
    then have "\<lfloor>h / 60\<rfloor> = 0" using assms by (simp add: floor_eq_iff)
    with 1 show ?thesis by (intro exI [of _ 0]) (simp add: spec_sectors_def)
  next
    case 2
    then have "\<lfloor>h / 60\<rfloor> = 1" by (simp add: floor_eq_iff)
    with 2 show ?thesis by (intro exI [of _ 1]) (simp add: spec_sectors_def)
  next
    case 3
    then have "\<lfloor>h / 60\<rfloor> = 2" by (simp add: floor_eq_iff)
    with 3 show ?thesis by (intro exI [of _ 2]) (simp add: spec_sectors_def)
  next
    case 4
    then have "\<lfloor>h / 60\<rfloor> = 3" by (simp add: floor_eq_iff)
    with 4 show ?thesis by (intro exI [of _ 3]) (simp add: spec_sectors_def eval_nat_numeral)
  next
    case 5
    then have "\<lfloor>h / 60\<rfloor> = 4" by (simp add: floor_eq_iff)
    with 5 show ?thesis by (intro exI [of _ 4]) (simp add: spec_sectors_def eval_nat_numeral)
  next
    case 6
    then have "\<lfloor>h / 60\<rfloor> = 5" by (simp add: floor_eq_iff)
    with 6 show ?thesis by (intro exI [of _ 5]) (simp add: spec_sectors_def eval_nat_numeral)
  next
    case 7
    then show ?thesis by (intro exI [of _ 5]) (simp add: spec_sectors_def eval_nat_numeral)
  qed
qed

lemma sectors_all2:
  assumes "P c C" "P x X" "P z Z" "k < 6"
  shows "list_all2 P (spec_sectors z c x ! k) (spec_sectors Z C X ! k)"
proof -
  from \<open>k < 6\<close> consider "k = 0" | "k = 1" | "k = 2" | "k = 3" | "k = 4" | "k = 5" by linarith
  then show ?thesis
    using assms(1-3) by cases (simp_all add: spec_sectors_def eval_nat_numeral)
qed

text \<open>
  From the chroma and the offset on: the code's triple is the one of some sector \<open>k\<close>,
  the sector \<open>\<lfloor>h/60\<rfloor>\<close> below 360 degrees, and each channel is near the exact one.
\<close>

lemma sector_stage:
  assumes h: "0 \<le> h" "h \<le> 360" and c: "0 \<le> c" "c \<le> 1" "\<bar>c - C\<bar> \<le> 8 * eps"
    and m: "\<bar>m - M\<bar> \<le> 7 * eps" and CM: "0 \<le> C" "0 \<le> M" "C + M \<le> 1"
  shows "\<exists>x k. fmul (Fin c)
        (fsub (Fin 1) (Math_abs (fsub (frem (fdiv (Fin h) (Fin 60)) (Fin 2)) (Fin 1)))) = Fin x \<and>
      k < 6 \<and> (h < 360 \<longrightarrow> k = nat \<lfloor>h / 60\<rfloor>) \<and>
      list_all2 near_channel
        (map (\<lambda>v. Math_round (fmul (fadd v (Fin m)) (Fin 255)))
           (if h < 60 then [Fin c, Fin x, Fin 0]
            else if h < 120 then [Fin x, Fin c, Fin 0]
            else if h < 180 then [Fin 0, Fin c, Fin x]
            else if h < 240 then [Fin 0, Fin x, Fin c]
            else if h < 300 then [Fin x, Fin 0, Fin c]
            else [Fin c, Fin 0, Fin x]))
        (map (\<lambda>v. round ((v + M) * 255))
           (spec_sectors 0 C (C * (1 - \<bar>spec_mod (h / 60) 2 - 1\<bar>)) ! k))"
proof -
  note e = eps_pos
  define F where "F = 1 - \<bar>spec_mod (h / 60) 2 - 1\<bar>"
  have F: "0 \<le> F" "F \<le> 1" unfolding F_def by (rule triangle_range)+
  from hue_factor [OF h] obtain f where f:
    "fsub (Fin 1) (Math_abs (fsub (frem (fdiv (Fin h) (Fin 60)) (Fin 2)) (Fin 1))) = Fin f"
    "0 \<le> f" "f \<le> 1" "\<bar>f - F\<bar> \<le> 10 * eps" unfolding F_def by blast
  have AC: "\<bar>C\<bar> \<le> 1" using CM by simp
  from fmul_unit [OF c(1) c(2) f(2) f(3) c(3) f(4) AC]
  obtain x where x: "fmul (Fin c) (Fin f) = Fin x" "\<bar>x - C * F\<bar> \<le> 8 * eps + 10 * eps + eps"
    by auto
  have X: "0 \<le> C * F" "C * F \<le> C"
    using CM(1) F mult_left_le [of F C] by simp_all
  let ?P = "\<lambda>a V. \<exists>v. a = Fin v \<and> \<bar>v - V\<bar> \<le> 32 * eps \<and> 0 \<le> V + M \<and> V + M \<le> 1"
  let ?Q = "\<lambda>a V. near_channel (Math_round (fmul (fadd a (Fin m)) (Fin 255)))
      (round ((V + M) * 255))"
  have m32: "\<bar>m - M\<bar> \<le> 32 * eps" using m e by linarith
  have PQ: "?Q a V" if "?P a V" for a V
  proof -
    from that obtain v where v: "a = Fin v" "\<bar>v - V\<bar> \<le> 32 * eps" "0 \<le> V + M" "V + M \<le> 1"
      by blast
    from channel_near [OF v(2) m32 v(3) v(4)] show ?thesis by (simp only: v(1))
  qed
  have c32: "\<bar>c - C\<bar> \<le> 32 * eps" using c(3) e by linarith
  have x32: "\<bar>x - C * F\<bar> \<le> 32 * eps" using x(2) e by linarith
  have z32: "\<bar>0 - (0::real)\<bar> \<le> 32 * eps" using e by simp
  have rc: "0 \<le> C + M" "C + M \<le> 1" using CM by simp_all
  have rx: "0 \<le> C * F + M" "C * F + M \<le> 1" using X CM by linarith+
  have rz: "0 \<le> 0 + M" "0 + M \<le> 1" using CM by linarith+
  have Pc: "?P (Fin c) C" using c32 rc by blast
  have Px: "?P (Fin x) (C * F)" using x32 rx by blast
  have Pz: "?P (Fin 0) 0" using z32 rz by blast
  from sector_index [OF h(1), of "Fin c" "Fin x" "Fin 0"] obtain k where k: "k < 6"
    "h < 360 \<longrightarrow> k = nat \<lfloor>h / 60\<rfloor>"
    "(if h < 60 then [Fin c, Fin x, Fin 0]
      else if h < 120 then [Fin x, Fin c, Fin 0]
      else if h < 180 then [Fin 0, Fin c, Fin x]
      else if h < 240 then [Fin 0, Fin x, Fin c]
      else if h < 300 then [Fin x, Fin 0, Fin c]
      else [Fin c, Fin 0, Fin x]) = spec_sectors (Fin 0) (Fin c) (Fin x) ! k"
    by blast
  have "list_all2 ?P (spec_sectors (Fin 0) (Fin c) (Fin x) ! k) (spec_sectors 0 C (C * F) ! k)"
    using Pc Px Pz k(1) by (rule sectors_all2)
  then have "list_all2 ?Q (spec_sectors (Fin 0) (Fin c) (Fin x) ! k) (spec_sectors 0 C (C * F) ! k)"
    using PQ by (rule list_all2_mono)
  then have near: "list_all2 near_channel
      (map (\<lambda>v. Math_round (fmul (fadd v (Fin m)) (Fin 255)))
         (spec_sectors (Fin 0) (Fin c) (Fin x) ! k))
      (map (\<lambda>v. round ((v + M) * 255)) (spec_sectors 0 C (C * F) ! k))"
    by (simp only: list_all2_map1 list_all2_map2)
  have fx: "fmul (Fin c)
      (fsub (Fin 1) (Math_abs (fsub (frem (fdiv (Fin h) (Fin 60)) (Fin 2)) (Fin 1)))) = Fin x"
    by (simp only: f(1) x(1))
  show ?thesis
    using fx k(1) k(2) near unfolding k(3) [symmetric] F_def by blast
qed

subsection \<open>The conversions and the sector algorithm\<close>

lemma sector_floor:
  fixes h :: real
  assumes "0 \<le> h" "h < 360"
  shows "(if h < 60 then [c, x, z]
          else if h < 120 then [x, c, z]
          else if h < 180 then [z, c, x]
          else if h < 240 then [z, x, c]
          else if h < 300 then [x, z, c]
          else [c, z, x]) = spec_sectors z c x ! nat \<lfloor>h / 60\<rfloor>"
  using sector_index [OF assms(1), of c x z] assms(2) by auto

lemma hslToRgb_refines:
  assumes "0 \<le> h" "h < 360"
  shows "hslToRgb (Fin h) (Fin s) (Fin l) = spec_hslToRgb_fl h s l"
proof -
  have "h \<le> 360" using assms by simp
  from hue_factor [OF assms(1) this]
  have r: "frem (fdiv (Fin h) (Fin 60)) (Fin 2) = spec_mod_fl (fdiv (Fin h) (Fin 60)) 2"
    by blast
  show ?thesis
    by (simp only: hslToRgb_def spec_hslToRgb_fl_def spec_sector_algorithm_fl_def Let_def
        flt.simps r Math_round_nearest sector_floor [OF assms])
qed

lemma hsvToRgb_refines:
  assumes "0 \<le> h" "h < 360"
  shows "hsvToRgb (Fin h) (Fin s) (Fin v) = spec_hsvToRgb_fl h s v"
proof -
  have "h \<le> 360" using assms by simp
  from hue_factor [OF assms(1) this]
  have r: "frem (fdiv (Fin h) (Fin 60)) (Fin 2) = spec_mod_fl (fdiv (Fin h) (Fin 60)) 2"
    by blast
  show ?thesis
    by (simp only: hsvToRgb_def spec_hsvToRgb_fl_def spec_sector_algorithm_fl_def Let_def
        flt.simps r Math_round_nearest sector_floor [OF assms])
qed

text \<open>Chroma and offset of the exact algorithm.\<close>

lemma hsl_exact_range:
  fixes s l :: real
  assumes "0 \<le> s" "s \<le> 100" "0 \<le> l" "l \<le> 100"
  defines "c \<equiv> (1 - \<bar>2 * (l / 100) - 1\<bar>) * (s / 100)"
  shows "0 \<le> c" "0 \<le> l / 100 - c / 2" "c + (l / 100 - c / 2) \<le> 1"
proof -
  let ?k = "1 - \<bar>2 * (l / 100) - 1\<bar>"
  have l: "0 \<le> l / 100" "l / 100 \<le> 1" using assms(3,4) by simp_all
  have k: "0 \<le> ?k" "?k \<le> 2 * (l / 100)" "?k \<le> 2 - 2 * (l / 100)"
    using l by linarith+
  have s: "0 \<le> s / 100" "s / 100 \<le> 1" using assms(1,2) by simp_all
  show c0: "0 \<le> c" unfolding c_def using k(1) s(1) by simp
  have ck: "c \<le> ?k" unfolding c_def using mult_left_le [OF s(2) k(1)] by simp
  show "0 \<le> l / 100 - c / 2" using ck k(2) by simp
  show "c + (l / 100 - c / 2) \<le> 1" using ck k(3) by simp
qed

lemma hsv_exact_range:
  fixes s v :: real
  assumes "0 \<le> s" "s \<le> 100" "0 \<le> v" "v \<le> 100"
  defines "c \<equiv> (v / 100) * (s / 100)"
  shows "0 \<le> c" "0 \<le> v / 100 - c" "c + (v / 100 - c) \<le> 1"
proof -
  have s: "0 \<le> s / 100" "s / 100 \<le> 1" using assms(1,2) by simp_all
  have v: "0 \<le> v / 100" "v / 100 \<le> 1" using assms(3,4) by simp_all
  show "0 \<le> c" unfolding c_def using s(1) v(1) by simp
  have "c \<le> v / 100" unfolding c_def using mult_left_le [OF s(2) v(1)] by simp
  then show "0 \<le> v / 100 - c" by simp
  show "c + (v / 100 - c) \<le> 1" using v(2) by simp
qed

text \<open>
  The channels of \<open>hslToRgb\<close> against those of the exact algorithm in some sector \<open>k\<close>,
  the sector of the hue below 360 degrees.
\<close>

lemma hslToRgb_near_sector:
  assumes h: "0 \<le> h" "h \<le> 360" and s: "0 \<le> s" "s \<le> 100" and l: "0 \<le> l" "l \<le> 100"
  defines "C \<equiv> (1 - \<bar>2 * (l / 100) - 1\<bar>) * (s / 100)"
  shows "\<exists>k<6. (h < 360 \<longrightarrow> k = nat \<lfloor>h / 60\<rfloor>) \<and>
    list_all2 near_channel (hslToRgb (Fin h) (Fin s) (Fin l))
      (map (\<lambda>v. round ((v + (l / 100 - C / 2)) * 255))
         (spec_sectors 0 C (C * (1 - \<bar>spec_mod (h / 60) 2 - 1\<bar>)) ! k))"
proof -
  define M where "M = l / 100 - C / 2"
  have CM: "0 \<le> C" "0 \<le> M" "C + M \<le> 1"
    unfolding C_def M_def using s l by (rule hsl_exact_range)+
  have S: "0 \<le> s / 100" "s / 100 \<le> 1" and L: "0 \<le> l / 100" "l / 100 \<le> 1"
    using s l by simp_all
  from fdiv_percent [OF s] obtain s' where s': "fdiv (Fin s) (Fin 100) = Fin s'"
    "0 \<le> s'" "s' \<le> 1" "\<bar>s' - s / 100\<bar> \<le> eps" by blast
  from fdiv_percent [OF l] obtain l' where l': "fdiv (Fin l) (Fin 100) = Fin l'"
    "0 \<le> l'" "l' \<le> 1" "\<bar>l' - l / 100\<bar> \<le> eps" by blast
  from hsl_chroma [OF s'(2,3,4) l'(2,3,4) L S] obtain c m where c:
    "fmul (fsub (Fin 1) (Math_abs (fsub (fmul (Fin 2) (Fin l')) (Fin 1)))) (Fin s') = Fin c"
    "fsub (Fin l') (fdiv (Fin c) (Fin 2)) = Fin m" "0 \<le> c" "c \<le> 1"
    "\<bar>c - C\<bar> \<le> 8 * eps" "\<bar>m - M\<bar> \<le> 7 * eps"
    unfolding C_def M_def by blast
  from sector_stage [OF h c(3,4,5,6) CM] obtain x k where x:
    "fmul (Fin c)
       (fsub (Fin 1) (Math_abs (fsub (frem (fdiv (Fin h) (Fin 60)) (Fin 2)) (Fin 1)))) = Fin x"
    "k < 6" "h < 360 \<longrightarrow> k = nat \<lfloor>h / 60\<rfloor>"
    "list_all2 near_channel
        (map (\<lambda>v. Math_round (fmul (fadd v (Fin m)) (Fin 255)))
           (if h < 60 then [Fin c, Fin x, Fin 0]
            else if h < 120 then [Fin x, Fin c, Fin 0]
            else if h < 180 then [Fin 0, Fin c, Fin x]
            else if h < 240 then [Fin 0, Fin x, Fin c]
            else if h < 300 then [Fin x, Fin 0, Fin c]
            else [Fin c, Fin 0, Fin x]))
        (map (\<lambda>v. round ((v + M) * 255))
           (spec_sectors 0 C (C * (1 - \<bar>spec_mod (h / 60) 2 - 1\<bar>)) ! k))"
    by blast
  have "hslToRgb (Fin h) (Fin s) (Fin l) =
      map (\<lambda>v. Math_round (fmul (fadd v (Fin m)) (Fin 255)))
        (if h < 60 then [Fin c, Fin x, Fin 0]
         else if h < 120 then [Fin x, Fin c, Fin 0]
         else if h < 180 then [Fin 0, Fin c, Fin x]
         else if h < 240 then [Fin 0, Fin x, Fin c]
         else if h < 300 then [Fin x, Fin 0, Fin c]
         else [Fin c, Fin 0, Fin x])"
    by (simp only: hslToRgb_def Let_def s'(1) l'(1) c(1) c(2) x(1) flt.simps)
  then show ?thesis using x(2,3,4) unfolding M_def by (simp only:) blast
qed

lemma hsvToRgb_near_sector:
  assumes h: "0 \<le> h" "h \<le> 360" and s: "0 \<le> s" "s \<le> 100" and v: "0 \<le> v" "v \<le> 100"
  defines "C \<equiv> (v / 100) * (s / 100)"
  shows "\<exists>k<6. (h < 360 \<longrightarrow> k = nat \<lfloor>h / 60\<rfloor>) \<and>
    list_all2 near_channel (hsvToRgb (Fin h) (Fin s) (Fin v))
      (map (\<lambda>a. round ((a + (v / 100 - C)) * 255))
         (spec_sectors 0 C (C * (1 - \<bar>spec_mod (h / 60) 2 - 1\<bar>)) ! k))"
proof -
  define M where "M = v / 100 - C"
  have CM: "0 \<le> C" "0 \<le> M" "C + M \<le> 1"
    unfolding C_def M_def using s v by (rule hsv_exact_range)+
  have V: "0 \<le> v / 100" "v / 100 \<le> 1" using v by simp_all
  from fdiv_percent [OF s] obtain s' where s': "fdiv (Fin s) (Fin 100) = Fin s'"
    "0 \<le> s'" "s' \<le> 1" "\<bar>s' - s / 100\<bar> \<le> eps" by blast
  from fdiv_percent [OF v] obtain v' where v': "fdiv (Fin v) (Fin 100) = Fin v'"
    "0 \<le> v'" "v' \<le> 1" "\<bar>v' - v / 100\<bar> \<le> eps" by blast
  from hsv_chroma [OF s'(2,3,4) v'(2,3,4) V] obtain c m where c:
    "fmul (Fin v') (Fin s') = Fin c" "fsub (Fin v') (Fin c) = Fin m" "0 \<le> c" "c \<le> 1"
    "\<bar>c - C\<bar> \<le> 8 * eps" "\<bar>m - M\<bar> \<le> 7 * eps"
    unfolding C_def M_def by blast
  from sector_stage [OF h c(3,4,5,6) CM] obtain x k where x:
    "fmul (Fin c)
       (fsub (Fin 1) (Math_abs (fsub (frem (fdiv (Fin h) (Fin 60)) (Fin 2)) (Fin 1)))) = Fin x"
    "k < 6" "h < 360 \<longrightarrow> k = nat \<lfloor>h / 60\<rfloor>"
    "list_all2 near_channel
        (map (\<lambda>v. Math_round (fmul (fadd v (Fin m)) (Fin 255)))
           (if h < 60 then [Fin c, Fin x, Fin 0]
            else if h < 120 then [Fin x, Fin c, Fin 0]
            else if h < 180 then [Fin 0, Fin c, Fin x]
            else if h < 240 then [Fin 0, Fin x, Fin c]
            else if h < 300 then [Fin x, Fin 0, Fin c]
            else [Fin c, Fin 0, Fin x]))
        (map (\<lambda>v. round ((v + M) * 255))
           (spec_sectors 0 C (C * (1 - \<bar>spec_mod (h / 60) 2 - 1\<bar>)) ! k))"
    by blast
  have "hsvToRgb (Fin h) (Fin s) (Fin v) =
      map (\<lambda>v. Math_round (fmul (fadd v (Fin m)) (Fin 255)))
        (if h < 60 then [Fin c, Fin x, Fin 0]
         else if h < 120 then [Fin x, Fin c, Fin 0]
         else if h < 180 then [Fin 0, Fin c, Fin x]
         else if h < 240 then [Fin 0, Fin x, Fin c]
         else if h < 300 then [Fin x, Fin 0, Fin c]
         else [Fin c, Fin 0, Fin x])"
    by (simp only: hsvToRgb_def Let_def s'(1) v'(1) c(1) c(2) x(1) flt.simps)
  then show ?thesis using x(2,3,4) unfolding M_def by (simp only:) blast
qed

lemma hslToRgb_near:
  assumes "0 \<le> h" "h < 360" "0 \<le> s" "s \<le> 100" "0 \<le> l" "l \<le> 100"
  shows "list_all2 near_channel (hslToRgb (Fin h) (Fin s) (Fin l)) (spec_hslToRgb h s l)"
proof -
  have "h \<le> 360" using assms by simp
  from hslToRgb_near_sector [OF assms(1) this assms(3-6)] assms(2)
  show ?thesis
    by (auto simp: spec_hslToRgb_def spec_sector_algorithm_def Let_def)
qed

lemma hsvToRgb_near:
  assumes "0 \<le> h" "h < 360" "0 \<le> s" "s \<le> 100" "0 \<le> v" "v \<le> 100"
  shows "list_all2 near_channel (hsvToRgb (Fin h) (Fin s) (Fin v)) (spec_hsvToRgb h s v)"
proof -
  have "h \<le> 360" using assms by simp
  from hsvToRgb_near_sector [OF assms(1) this assms(3-6)] assms(2)
  show ?thesis
    by (auto simp: spec_hsvToRgb_def spec_sector_algorithm_def Let_def)
qed






text \<open>\<open>fromHSL\<close> converts as \<open>hslToRgb\<close> does.\<close>

lemma fromHSL_hslToRgb:
  "fromHSL h s l =
     (if flt h (Fin 0) \<or> fgt h (Fin 360)
        then Inl (Error ''Hue value must be between 0 and 360.'')
      else if flt s (Fin 0) \<or> fgt s (Fin 100)
        then Inl (Error ''Saturation value must be between 0 and 100.'')
      else if flt l (Fin 0) \<or> fgt l (Fin 100)
        then Inl (Error ''Lightness value must be between 0 and 100.'')
      else fromRGB (element (hslToRgb h s l) 0) (element (hslToRgb h s l) 1)
             (element (hslToRgb h s l) 2))"
  by (simp only: fromHSL_def hslToRgb_def Let_def)

subsection \<open>Rounding of large numbers\<close>




subsection \<open>The range of \<open>rand\<close>\<close>


lemma fadd_NAN_right: "fadd a NAN = NAN"
  by (cases a) simp_all

lemma fmul_NAN_right: "fmul a NAN = NAN"
  by (cases a) simp_all




subsection \<open>Decimal numerals\<close>






subsection \<open>Digits\<close>

lemma dec_digits: "dec n \<noteq> [] \<and> (\<forall>c \<in> set (dec n). unat c < 58)"
proof (induction n rule: dec.induct)
  case (1 n)
  show ?case
  proof (cases "n < 10")
    case True
    have "dec n = [of_nat (48 + n)]" using True by (subst dec.simps) simp
    moreover have "unat (of_nat (48 + n) :: jschar) < 58"
      using True by (simp only: unat_of_nat) simp
    ultimately show ?thesis by simp
  next
    case False
    have m: "n mod 10 < 10" by simp
    have "dec n = dec (n div 10) @ [of_nat (48 + n mod 10)]"
      using False by (subst dec.simps) simp
    moreover have "unat (of_nat (48 + n mod 10) :: jschar) < 58"
      using m by (simp only: unat_of_nat) simp
    ultimately show ?thesis using "1.IH" [OF False] by auto
  qed
qed

lemma dec_hd: "unat (hd (dec n @ s)) < 58"
proof -
  have "hd (dec n @ s) = hd (dec n)" using dec_digits [of n] by simp
  moreover have "hd (dec n) \<in> set (dec n)" using dec_digits [of n] by simp
  ultimately show ?thesis using dec_digits [of n] by simp
qed


subsection \<open>What the factories construct\<close>
























subsection \<open>Appending one fragment\<close>

lemma appends_oneI:
  assumes "chain s < length st" "\<And>s st. m s st = (s, push (chain s) f st)"
  shows "appends_one m f s st"
  using assms(1) by (simp add: appends_one_def assms(2) push_def render_def)

section \<open>The claims\<close>

subsection \<open>C1: a Color from \<^verbatim>\<open>"#ff5733"\<close>\<close>

text \<open>
  C1. The claim: building a Color from \<^verbatim>\<open>"#ff5733"\<close> succeeds and its fragment is
  \<^verbatim>\<open>8;2;255;87;51\<close>. In the code, \<open>fromHex\<close> rejects this string, because its test admits
  six hexadecimal digits with no sigil in front; the conversion that follows the test
  would give (255, 87, 51), as \<open>hexToSVG\<close> does, and \<open>fromRGB\<close> would render it as claimed.
\<close>

theorem fromHex_sigil_rejected:
  "fromHex (js ''#ff5733'') = Inl (Error ''Invalid hex string.'') \<and>
   hexToSVG (js ''#ff5733'') = [Num 255, Num 87, Num 51] \<and>
   fromRGB (Num 255) (Num 87) (Num 51) = Inr (Color_new (js ''8;2;255;87;51''))"
  by (simp add: eval_defs)

subsection \<open>C2: strictness of \<open>fromHex\<close>\<close>

text \<open>
  C2. The claim: \<open>fromHex\<close> raises exactly on the strings that are not a sigil followed by
  six hexadecimal digits, and constructs no Color from an invalid string. In the code,
  the string \<^verbatim>\<open>"ff5733"\<close>, which has no sigil, passes the test; \<open>slice(1)\<close> then drops its
  first digit, the match finds two pairs only, and a Color with an undefined blue
  channel is constructed.
\<close>

theorem fromHex_accepts_six_digits:
  "\<not> sigil_hex6 (js ''ff5733'') \<and>
   fromHex (js ''ff5733'') = Inr (Color_new (js ''8;2;245;115;undefined''))"
  by (simp add: eval_defs)

subsection \<open>C3: the fallback of \<open>hexToSVG\<close>\<close>

text \<open>
  C3. The claim: on every malformed string \<open>hexToSVG\<close> returns (255, 255, 255). It does
  not: \<^verbatim>\<open>"#gg5733"\<close> is malformed and converts to \<open>[NaN, 87, 51]\<close>.
\<close>

theorem hexToSVG_malformed_counterexample:
  "\<not> sigil_hex6 (js ''#gg5733'') \<and>
   hexToSVG (js ''#gg5733'') = [NaN, Num 87, Num 51] \<and>
   hexToSVG (js ''#gg5733'') \<noteq> white_triple"
  by (simp add: eval_defs)

text \<open>
  C3, as amended. \<open>hexToSVG\<close> never fails. It returns (255, 255, 255) when the string
  left after dropping the first character has no two neighbouring characters that are
  both not line terminators, in particular for every string shorter than three
  characters; on any other string, well formed or not, it returns \<open>parseInt(chunk, 16)\<close>
  of the successive two-character chunks, a non-empty array.
\<close>

theorem hexToSVG_fallback:
  "(\<not> has_pair (drop 1 hex) \<longrightarrow> hexToSVG hex = white_triple) \<and>
   (has_pair (drop 1 hex) \<longrightarrow>
      hexToSVG hex = map parseInt16 (match_all_pairs (drop 1 hex)) \<and> hexToSVG hex \<noteq> []) \<and>
   (length hex < 3 \<longrightarrow> hexToSVG hex = white_triple)"
proof (intro conjI impI)
  assume "\<not> has_pair (drop 1 hex)"
  then show "hexToSVG hex = white_triple"
    by (simp add: hexToSVG_def white_triple_def match_pairs_None_iff [symmetric])
next
  assume p: "has_pair (drop 1 hex)"
  then show "hexToSVG hex = map parseInt16 (match_all_pairs (drop 1 hex))"
    by (simp add: hexToSVG_def match_pairs_Some)
  with p show "hexToSVG hex \<noteq> []"
    by (simp add: match_all_pairs_has_pair)
next
  assume "length hex < 3"
  then have "\<not> has_pair (drop 1 hex)"
    by (auto simp: has_pair_def)
  then show "hexToSVG hex = white_triple"
    by (simp add: hexToSVG_def white_triple_def match_pairs_None_iff [symmetric])
qed

theorem hexToSVG_fallback_witness:
  "\<not> has_pair (drop 1 (js ''#f'')) \<and> length (js ''#f'') < 3 \<and>
   hexToSVG (js ''#f'') = white_triple \<and>
   has_pair (drop 1 (js ''#ff57'')) \<and>
   hexToSVG (js ''#ff57'') = map parseInt16 (match_all_pairs (drop 1 (js ''#ff57''))) \<and>
   hexToSVG (js ''#ff57'') \<noteq> []"
proof -
  have a: "\<not> has_pair (drop 1 (js ''#f''))" and b: "length (js ''#f'') < 3"
    by (simp_all add: has_pair_def js_def)
  have "\<not> is_line_terminator (drop 1 (js ''#ff57'') ! 0) \<and>
        \<not> is_line_terminator (drop 1 (js ''#ff57'') ! Suc 0)"
    by (simp add: js_def is_line_terminator_def)
  then have c: "has_pair (drop 1 (js ''#ff57''))"
    unfolding has_pair_def by (intro bexI [of _ 0]) (simp_all add: js_def)
  show ?thesis
    using a b c hexToSVG_fallback [of "js ''#f''"] hexToSVG_fallback [of "js ''#ff57''"]
    by blast
qed

subsection \<open>C4: only validated Colors\<close>




subsection \<open>C5: \<open>hslToRgb\<close>\<close>

text \<open>
  C5. The claim: for a hue in \<open>[0, 360)\<close> and saturation and lightness in \<open>[0, 100]\<close>,
  \<open>hslToRgb\<close> equals the sector algorithm of the specification. The formulas of the
  specification are exact; the code computes them in doubles, and a channel that the
  formulas put halfway between two integers can fall on the other side:
  \<open>hslToRgb(0, 100, 5)\<close> is \<open>(25, 0, 0)\<close>, where the formulas give 25.5 and so 26.
\<close>

theorem hslToRgb_exact_counterexample:
  "hslToRgb (Fin 0) (Fin 100) (Fin 5) = [Num 25, Num 0, Num 0] \<and>
   spec_hslToRgb 0 100 5 = [26, 0, 0]"
proof -
  have "hslToRgb (Fin 0) (Fin 100) (Fin 5) = [Num 25, Num 0, Num 0]"
    by (simp add: hslToRgb_def number_defs)
  moreover have "spec_hslToRgb 0 100 5 = [26, 0, 0]"
    by (simp add: spec_hslToRgb_def spec_sector_algorithm_def spec_sectors_def spec_mod_def
        round_def Let_def)
  ultimately show ?thesis by simp
qed

text \<open>
  C5, as amended. For a hue in \<open>[0, 360)\<close> and saturation and lightness in \<open>[0, 100]\<close>,
  \<open>hslToRgb\<close> is the sector algorithm of the specification carried out in double
  arithmetic: the same chroma, intermediate and offset, the triple of the sector
  \<open>\<lfloor>h/60\<rfloor>\<close>, and each channel rounded to the nearest integer. Each channel is an integer
  from 0 to 255 and differs by at most one from the channel of the exact formulas.
  \<open>Color.fromHSL\<close>, which repeats the computation, passes the same three channels to
  \<open>fromRGB\<close>. In particular \<open>hslToRgb(0, 100, 50) = (255, 0, 0)\<close>,
  \<open>hslToRgb(120, 100, 50) = (0, 255, 0)\<close> and \<open>hslToRgb(240, 100, 50) = (0, 0, 255)\<close>.
\<close>

theorem hslToRgb_sector_algorithm:
  "(0 \<le> h \<and> h < 360 \<and> 0 \<le> s \<and> s \<le> 100 \<and> 0 \<le> l \<and> l \<le> 100 \<longrightarrow>
      hslToRgb (Fin h) (Fin s) (Fin l) = spec_hslToRgb_fl h s l \<and>
      list_all2 near_channel (hslToRgb (Fin h) (Fin s) (Fin l)) (spec_hslToRgb h s l) \<and>
      fromHSL (Fin h) (Fin s) (Fin l) =
        fromRGB (element (spec_hslToRgb_fl h s l) 0) (element (spec_hslToRgb_fl h s l) 1)
          (element (spec_hslToRgb_fl h s l) 2)) \<and>
   hslToRgb (Fin 0) (Fin 100) (Fin 50) = [Num 255, Num 0, Num 0] \<and>
   hslToRgb (Fin 120) (Fin 100) (Fin 50) = [Num 0, Num 255, Num 0] \<and>
   hslToRgb (Fin 240) (Fin 100) (Fin 50) = [Num 0, Num 0, Num 255]"
proof (intro conjI impI)
  assume a: "0 \<le> h \<and> h < 360 \<and> 0 \<le> s \<and> s \<le> 100 \<and> 0 \<le> l \<and> l \<le> 100"
  then show r: "hslToRgb (Fin h) (Fin s) (Fin l) = spec_hslToRgb_fl h s l"
    by (intro hslToRgb_refines) simp_all
  from a show "list_all2 near_channel (hslToRgb (Fin h) (Fin s) (Fin l)) (spec_hslToRgb h s l)"
    by (intro hslToRgb_near) simp_all
  have "\<not> (flt (Fin h) (Fin 0) \<or> fgt (Fin h) (Fin 360))"
    "\<not> (flt (Fin s) (Fin 0) \<or> fgt (Fin s) (Fin 100))"
    "\<not> (flt (Fin l) (Fin 0) \<or> fgt (Fin l) (Fin 100))"
    using a by (simp_all add: fgt_def)
  then show "fromHSL (Fin h) (Fin s) (Fin l) =
      fromRGB (element (spec_hslToRgb_fl h s l) 0) (element (spec_hslToRgb_fl h s l) 1)
        (element (spec_hslToRgb_fl h s l) 2)"
    unfolding r [symmetric] by (simp only: fromHSL_hslToRgb if_False)
next
  show "hslToRgb (Fin 0) (Fin 100) (Fin 50) = [Num 255, Num 0, Num 0]"
    by (simp add: hslToRgb_def number_defs)
  show "hslToRgb (Fin 120) (Fin 100) (Fin 50) = [Num 0, Num 255, Num 0]"
    by (simp add: hslToRgb_def number_defs)
  show "hslToRgb (Fin 240) (Fin 100) (Fin 50) = [Num 0, Num 0, Num 255]"
    by (simp add: hslToRgb_def number_defs)
qed

theorem hslToRgb_sector_algorithm_witness:
  "(0::real) \<le> 200 \<and> (200::real) < 360 \<and> (0::real) \<le> 50 \<and> (50::real) \<le> 100 \<and>
   (0::real) \<le> 40 \<and> (40::real) \<le> 100 \<and>
   spec_hslToRgb_fl 200 50 40 = [Num 51, Num 119, Num 153] \<and>
   spec_hslToRgb 200 50 40 = [51, 119, 153] \<and>
   list_all2 near_channel [Num 51, Num 119, Num 153] [51, 119, 153] \<and>
   fromHSL (Fin 200) (Fin 50) (Fin 40) = Inr (Color_new (js ''8;2;51;119;153''))"
proof -
  have c: "hslToRgb (Fin 200) (Fin 50) (Fin 40) = [Num 51, Num 119, Num 153]"
    by (simp add: hslToRgb_def number_defs)
  have e: "spec_hslToRgb 200 50 40 = [51, 119, 153]"
    by (simp add: spec_hslToRgb_def spec_sector_algorithm_def spec_sectors_def spec_mod_def
        round_def Let_def)
  have f: "fromRGB (Num 51) (Num 119) (Num 153) = Inr (Color_new (js ''8;2;51;119;153''))"
    by (simp add: eval_defs)
  have p: "(0::real) \<le> 200 \<and> (200::real) < 360 \<and> (0::real) \<le> 50 \<and> (50::real) \<le> 100 \<and>
      (0::real) \<le> 40 \<and> (40::real) \<le> 100" by simp
  note t = hslToRgb_sector_algorithm [of 200 50 40]
  have 1: "spec_hslToRgb_fl 200 50 40 = [Num 51, Num 119, Num 153]"
    using t p c by metis
  have 2: "list_all2 near_channel (hslToRgb (Fin 200) (Fin 50) (Fin 40)) (spec_hslToRgb 200 50 40)"
    using t p by blast
  have 3: "fromHSL (Fin 200) (Fin 50) (Fin 40) =
      fromRGB (element (spec_hslToRgb_fl 200 50 40) 0) (element (spec_hslToRgb_fl 200 50 40) 1)
        (element (spec_hslToRgb_fl 200 50 40) 2)"
    using t p by blast
  have 4: "fromHSL (Fin 200) (Fin 50) (Fin 40) = Inr (Color_new (js ''8;2;51;119;153''))"
    unfolding 3 1 by (simp add: element_def f)
  show ?thesis using 1 2 4 e c by simp
qed

subsection \<open>C6: \<open>hsvToRgb\<close>\<close>

text \<open>
  C6. The claim: for a hue in \<open>[0, 360)\<close> and saturation and value in \<open>[0, 100]\<close>,
  \<open>hsvToRgb\<close> follows the sector algorithm with chroma \<open>c = v' * s'\<close> and offset
  \<open>m = v' - c\<close>. In doubles a channel halfway between two integers can fall on the other
  side: \<open>hsvToRgb(0, 90, 100)\<close> is \<open>(255, 25, 25)\<close>, where the formulas give 25.5 and so 26.
\<close>

theorem hsvToRgb_exact_counterexample:
  "hsvToRgb (Fin 0) (Fin 90) (Fin 100) = [Num 255, Num 25, Num 25] \<and>
   spec_hsvToRgb 0 90 100 = [255, 26, 26]"
proof -
  have "hsvToRgb (Fin 0) (Fin 90) (Fin 100) = [Num 255, Num 25, Num 25]"
    by (simp add: hsvToRgb_def number_defs)
  moreover have "spec_hsvToRgb 0 90 100 = [255, 26, 26]"
    by (simp add: spec_hsvToRgb_def spec_sector_algorithm_def spec_sectors_def spec_mod_def
        round_def Let_def)
  ultimately show ?thesis by simp
qed

text \<open>
  C6, as amended. For a hue in \<open>[0, 360)\<close> and saturation and value in \<open>[0, 100]\<close>,
  \<open>hsvToRgb\<close> is the same sector algorithm carried out in double arithmetic, with chroma
  \<open>c = v' * s'\<close> and offset \<open>m = v' - c\<close>. Each channel is an integer from 0 to 255 and
  differs by at most one from the channel of the exact formulas. In particular
  \<open>hsvToRgb(0, 100, 100) = (255, 0, 0)\<close>.
\<close>

theorem hsvToRgb_sector_algorithm:
  "(0 \<le> h \<and> h < 360 \<and> 0 \<le> s \<and> s \<le> 100 \<and> 0 \<le> v \<and> v \<le> 100 \<longrightarrow>
      hsvToRgb (Fin h) (Fin s) (Fin v) = spec_hsvToRgb_fl h s v \<and>
      list_all2 near_channel (hsvToRgb (Fin h) (Fin s) (Fin v)) (spec_hsvToRgb h s v)) \<and>
   hsvToRgb (Fin 0) (Fin 100) (Fin 100) = [Num 255, Num 0, Num 0]"
proof (intro conjI impI)
  assume a: "0 \<le> h \<and> h < 360 \<and> 0 \<le> s \<and> s \<le> 100 \<and> 0 \<le> v \<and> v \<le> 100"
  then show "hsvToRgb (Fin h) (Fin s) (Fin v) = spec_hsvToRgb_fl h s v"
    by (intro hsvToRgb_refines) simp_all
  from a show "list_all2 near_channel (hsvToRgb (Fin h) (Fin s) (Fin v)) (spec_hsvToRgb h s v)"
    by (intro hsvToRgb_near) simp_all
next
  show "hsvToRgb (Fin 0) (Fin 100) (Fin 100) = [Num 255, Num 0, Num 0]"
    by (simp add: hsvToRgb_def number_defs)
qed

theorem hsvToRgb_sector_algorithm_witness:
  "(0::real) \<le> 200 \<and> (200::real) < 360 \<and> (0::real) \<le> 50 \<and> (50::real) \<le> 100 \<and>
   (0::real) \<le> 40 \<and> (40::real) \<le> 100 \<and>
   spec_hsvToRgb_fl 200 50 40 = [Num 51, Num 85, Num 102] \<and>
   spec_hsvToRgb 200 50 40 = [51, 85, 102] \<and>
   list_all2 near_channel [Num 51, Num 85, Num 102] [51, 85, 102]"
proof -
  have c: "hsvToRgb (Fin 200) (Fin 50) (Fin 40) = [Num 51, Num 85, Num 102]"
    by (simp add: hsvToRgb_def number_defs)
  have e: "spec_hsvToRgb 200 50 40 = [51, 85, 102]"
    by (simp add: spec_hsvToRgb_def spec_sector_algorithm_def spec_sectors_def spec_mod_def
        round_def Let_def)
  have p: "(0::real) \<le> 200 \<and> (200::real) < 360 \<and> (0::real) \<le> 50 \<and> (50::real) \<le> 100 \<and>
      (0::real) \<le> 40 \<and> (40::real) \<le> 100" by simp
  note t = hsvToRgb_sector_algorithm [of 200 50 40]
  have 1: "spec_hsvToRgb_fl 200 50 40 = [Num 51, Num 85, Num 102]"
    using t p c by metis
  have 2: "list_all2 near_channel (hsvToRgb (Fin 200) (Fin 50) (Fin 40)) (spec_hsvToRgb 200 50 40)"
    using t p by blast
  show ?thesis using 1 2 e c by simp
qed

subsection \<open>C7: the sentinel of \<open>rand\<close>\<close>

text \<open>
  C7. The claim: when any precondition is violated, \<open>rand\<close> returns the sentinel \<open>-1\<close>;
  the documentation of the function says the same of invalid arguments. The test of the
  preconditions is a disjunction of comparisons, and each of them is false of \<open>NaN\<close>: for
  the bound \<open>min = NaN\<close>, of which \<open>min \<le> max\<close> does not hold, \<open>rand(NaN, 5, 1)\<close> goes on to
  the arithmetic and returns \<open>NaN\<close>, whatever the draw, while \<open>rand(10, 5, 1)\<close> is \<open>-1\<close> and
  \<open>rand(5, 5, 1)\<close> is 5.
\<close>

theorem rand_NaN_not_sentinel:
  "rand NAN (Fin 5) (Fin 1) u = NAN \<and>
   rand NAN (Fin 5) (Fin 1) u \<noteq> Fin (- 1) \<and>
   rand (Fin 10) (Fin 5) (Fin 1) u = Fin (- 1) \<and>
   rand (Fin 5) (Fin 5) (Fin 1) u = Fin 5"
proof -
  have "rand NAN (Fin 5) (Fin 1) u = NAN"
    by (simp add: rand_def fgt_def fsub_def fadd_NAN_right fmul_NAN_right)
  moreover have "rand (Fin 10) (Fin 5) (Fin 1) u = Fin (- 1)"
    by (simp add: rand_def fgt_def)
  moreover have "rand (Fin 5) (Fin 5) (Fin 1) u = Fin 5"
    by (simp add: rand_def fgt_def)
  ultimately show ?thesis by simp
qed

subsection \<open>C8: every Style method appends one fragment\<close>

text \<open>
  C8. On a live Style, each attribute method appends exactly the fragment of the table
  to the chain and changes nothing else; the colour methods append the colour's
  fragment behind the selector 3 or 4. Rendering concatenates the chain in order, so
  \<open>new Style().bold().underline()\<close> renders to \<^verbatim>\<open>\x1b[1m\x1b[4m\<close>.
\<close>

theorem Style_methods_append:
  "(chain s < length st \<longrightarrow>
      appends_one light (ESC @ js ''[2m'') s st \<and>
      appends_one normal (ESC @ js ''[22m'') s st \<and>
      appends_one bold (ESC @ js ''[1m'') s st \<and>
      appends_one italic (ESC @ js ''[3m'') s st \<and>
      appends_one underline (ESC @ js ''[4m'') s st \<and>
      appends_one overline (ESC @ js ''[53m'') s st \<and>
      appends_one strikethrough (ESC @ js ''[9m'') s st \<and>
      appends_one hide (ESC @ js ''[8m'') s st \<and>
      appends_one invert (ESC @ js ''[7m'') s st \<and>
      appends_one (foreground c) (ESC @ js ''[3'' @ ansi c @ js ''m'') s st \<and>
      appends_one (color c) (ESC @ js ''[3'' @ ansi c @ js ''m'') s st \<and>
      appends_one (fg c) (ESC @ js ''[3'' @ ansi c @ js ''m'') s st \<and>
      appends_one (background c) (ESC @ js ''[4'' @ ansi c @ js ''m'') s st \<and>
      appends_one (bg c) (ESC @ js ''[4'' @ ansi c @ js ''m'') s st) \<and>
   (case Style_new None st0 of (s0, st1) \<Rightarrow>
      case bold s0 st1 of (s1, st2) \<Rightarrow>
        case underline s1 st2 of (s2, st3) \<Rightarrow>
          render s2 st3 = ESC @ js ''[1m'' @ ESC @ js ''[4m'')"
proof (intro conjI impI)
  assume s: "chain s < length st"
  show "appends_one light (ESC @ js ''[2m'') s st"
    using s by (rule appends_oneI) (simp add: light_def)
  show "appends_one normal (ESC @ js ''[22m'') s st"
    using s by (rule appends_oneI) (simp add: normal_def)
  show "appends_one bold (ESC @ js ''[1m'') s st"
    using s by (rule appends_oneI) (simp add: bold_def)
  show "appends_one italic (ESC @ js ''[3m'') s st"
    using s by (rule appends_oneI) (simp add: italic_def)
  show "appends_one underline (ESC @ js ''[4m'') s st"
    using s by (rule appends_oneI) (simp add: underline_def)
  show "appends_one overline (ESC @ js ''[53m'') s st"
    using s by (rule appends_oneI) (simp add: overline_def)
  show "appends_one strikethrough (ESC @ js ''[9m'') s st"
    using s by (rule appends_oneI) (simp add: strikethrough_def)
  show "appends_one hide (ESC @ js ''[8m'') s st"
    using s by (rule appends_oneI) (simp add: hide_def)
  show "appends_one invert (ESC @ js ''[7m'') s st"
    using s by (rule appends_oneI) (simp add: invert_def)
  show "appends_one (foreground c) (ESC @ js ''[3'' @ ansi c @ js ''m'') s st"
    using s by (rule appends_oneI) (simp add: foreground_def)
  show "appends_one (color c) (ESC @ js ''[3'' @ ansi c @ js ''m'') s st"
    using s by (rule appends_oneI) (simp add: color_def foreground_def)
  show "appends_one (fg c) (ESC @ js ''[3'' @ ansi c @ js ''m'') s st"
    using s by (rule appends_oneI) (simp add: fg_def foreground_def)
  show "appends_one (background c) (ESC @ js ''[4'' @ ansi c @ js ''m'') s st"
    using s by (rule appends_oneI) (simp add: background_def)
  show "appends_one (bg c) (ESC @ js ''[4'' @ ansi c @ js ''m'') s st"
    using s by (rule appends_oneI) (simp add: bg_def background_def)
next
  show "case Style_new None st0 of (s0, st1) \<Rightarrow>
      case bold s0 st1 of (s1, st2) \<Rightarrow>
        case underline s1 st2 of (s2, st3) \<Rightarrow>
          render s2 st3 = ESC @ js ''[1m'' @ ESC @ js ''[4m''"
    by (simp add: Style_new_def alloc_def bold_def underline_def push_def render_def nth_append)
qed

theorem Style_methods_append_witness:
  "chain \<lparr>chain = 0\<rparr> < length [[js ''x'']] \<and>
   appends_one bold (ESC @ js ''[1m'') \<lparr>chain = 0\<rparr> [[js ''x'']] \<and>
   appends_one (fg red) (ESC @ js ''[31m'') \<lparr>chain = 0\<rparr> [[js ''x'']] \<and>
   bold \<lparr>chain = 0\<rparr> [[js ''x'']] = (\<lparr>chain = 0\<rparr>, [[js ''x'', ESC @ js ''[1m'']]) \<and>
   (case Style_new None [] of (s0, st1) \<Rightarrow>
      case bold s0 st1 of (s1, st2) \<Rightarrow>
        case underline s1 st2 of (s2, st3) \<Rightarrow>
          render s2 st3 = js (CHR 0x1B # ''[1m'' @ CHR 0x1B # ''[4m''))"
  using Style_methods_append [of "\<lparr>chain = 0\<rparr>" "[[js ''x'']]" red "[]"]
  by (simp add: bold_def push_def js_def ESC_def red_def Color_new_def)

subsection \<open>C9: copy construction\<close>

text \<open>
  C9. Let \<open>t = new Style(s)\<close> for a live Style \<open>s\<close>, and append \<open>italic()\<close> to \<open>t\<close>. The
  copy holds an array of its own; it renders as \<open>s\<close> did, followed by the italic
  fragment, and the chain and the rendering of \<open>s\<close> are what they were.
\<close>

theorem Style_copy_independent:
  "chain s < length st \<Longrightarrow>
   (case Style_new (Some s) st of (t, st1) \<Rightarrow>
      case italic t st1 of (t', st2) \<Rightarrow>
        t' = t \<and> chain t \<noteq> chain s \<and>
        render t st1 = render s st \<and>
        render t' st2 = render s st @ ESC @ js ''[3m'' \<and>
        st2 ! chain s = st ! chain s \<and>
        render s st2 = render s st)"
  by (simp add: Style_new_def alloc_def italic_def push_def render_def nth_append
      split: prod.splits)

theorem Style_copy_independent_witness:
  "chain \<lparr>chain = 0\<rparr> < length [[ESC @ js ''[1m'', ESC @ js ''[4m'']] \<and>
   (case Style_new (Some \<lparr>chain = 0\<rparr>) [[ESC @ js ''[1m'', ESC @ js ''[4m'']] of (t, st1) \<Rightarrow>
      case italic t st1 of (t', st2) \<Rightarrow>
        t' = t \<and> chain t \<noteq> 0 \<and>
        render t' st2 = ESC @ js ''[1m'' @ ESC @ js ''[4m'' @ ESC @ js ''[3m'' \<and>
        st2 ! 0 = [ESC @ js ''[1m'', ESC @ js ''[4m''] \<and>
        render \<lparr>chain = 0\<rparr> st2 = ESC @ js ''[1m'' @ ESC @ js ''[4m'')"
  using Style_copy_independent [of "\<lparr>chain = 0\<rparr>" "[[ESC @ js ''[1m'', ESC @ js ''[4m'']]"]
  by (simp add: render_def split: prod.splits)

subsection \<open>C10: \<open>rand\<close> never returns its upper bound\<close>




end
